theory Spec2Isabelle
  imports Complex_Main
begin

section \<open>Strings and values of the host language\<close>

text \<open>
  A JavaScript string is a sequence of UTF-16 code units. It is modelled as a list of
  natural numbers, one per code unit; \<open>js\<close> turns an ASCII literal into such a list.
\<close>

type_synonym jsstring = "nat list"

definition js :: "string \<Rightarrow> jsstring" where
  "js s = map of_char s"

text \<open>
  The characters removed by \<open>String.prototype.trim\<close>, skipped by \<open>parseInt\<close> and matched
  by the regular expression class \<open>\s\<close>: the WhiteSpace and LineTerminator productions
  of ECMAScript (TAB, LF, VT, FF, CR, SP, NBSP, U+1680, U+2000 to U+200A, U+2028, U+2029,
  U+202F, U+205F, U+3000, U+FEFF).
\<close>

definition is_js_space :: "nat \<Rightarrow> bool" where
  "is_js_space c \<longleftrightarrow>
     c = 9 \<or> c = 10 \<or> c = 11 \<or> c = 12 \<or> c = 13 \<or> c = 32 \<or> c = 160 \<or> c = 5760 \<or>
     (8192 \<le> c \<and> c \<le> 8202) \<or> c = 8232 \<or> c = 8233 \<or> c = 8239 \<or> c = 8287 \<or>
     c = 12288 \<or> c = 65279"

definition trim_start :: "jsstring \<Rightarrow> jsstring" where
  "trim_start s = dropWhile is_js_space s"

definition trim :: "jsstring \<Rightarrow> jsstring" where
  "trim s = rev (dropWhile is_js_space (rev (dropWhile is_js_space s)))"

text \<open>\<open>s.indexOf(c)\<close> for a one-character search string; \<open>None\<close> stands for \<open>-1\<close>.\<close>

fun indexOf :: "nat \<Rightarrow> jsstring \<Rightarrow> nat option" where
  "indexOf c [] = None"
| "indexOf c (x # xs) = (if x = c then Some 0 else map_option Suc (indexOf c xs))"

text \<open>
  The values that flow through the orchestrator: what \<open>JSON.parse\<close> produces and what the
  session provider returns. Numbers are kept as exact rationals (the claims below never
  depend on the rounding to a double); an object is the list of its own properties in
  insertion order.
\<close>

datatype jsval =
    JUndefined
  | JNull
  | JBool bool
  | JNum rat
  | JStr jsstring
  | JArr "jsval list"
  | JObj "(jsstring \<times> jsval) list"

text \<open>ToBoolean, as used by \<open>!v\<close>, \<open>v && ...\<close> and \<open>if (v)\<close>.\<close>

fun truthy :: "jsval \<Rightarrow> bool" where
  "truthy JUndefined = False"
| "truthy JNull = False"
| "truthy (JBool b) = b"
| "truthy (JNum q) = (q \<noteq> 0)"
| "truthy (JStr s) = (s \<noteq> [])"
| "truthy (JArr xs) = True"
| "truthy (JObj kvs) = True"

text \<open>\<open>typeof v === "object"\<close>: true of null, arrays and objects.\<close>

fun typeof_object :: "jsval \<Rightarrow> bool" where
  "typeof_object JNull = True"
| "typeof_object (JArr xs) = True"
| "typeof_object (JObj kvs) = True"
| "typeof_object v = False"

text \<open>\<open>Array.isArray(v)\<close>.\<close>

fun isArray :: "jsval \<Rightarrow> bool" where
  "isArray (JArr xs) = True"
| "isArray v = False"

text \<open>
  The property read \<open>v.k\<close> for the names \<open>k\<close> that the source writes out: \<open>findings\<close>,
  \<open>data\<close>, \<open>error\<close>, \<open>type\<close>, \<open>parts\<close>, \<open>info\<close>, \<open>id\<close>, \<open>sessionID\<close>,
  \<open>properties\<close>, \<open>slug\<close>, \<open>text\<close>, \<open>state\<close>, \<open>status\<close> and \<open>output\<close>. None of them is
  a property of a built-in prototype, an index or \<open>length\<close>, so the read gives the own
  property of a plain object and \<open>undefined\<close> for every other value. The call sites never
  read a property of \<open>undefined\<close> or \<open>null\<close> without a guard or an optional chain, so
  \<open>undefined\<close> is the right value there as well. The one read under a computed name,
  \<open>statusMap?.[sessionID]\<close>, is \<open>optional_member\<close> below, which agrees with \<open>get_prop\<close>
  on these names.
\<close>

fun get_prop :: "jsval \<Rightarrow> jsstring \<Rightarrow> jsval" where
  "get_prop (JObj kvs) k = (case map_of kvs k of Some v \<Rightarrow> v | None \<Rightarrow> JUndefined)"
| "get_prop v k = JUndefined"

text \<open>\<open>k in v\<close> for an object or array \<open>v\<close> and the names \<open>findings\<close> and \<open>data\<close>.\<close>

fun has_prop :: "jsstring \<Rightarrow> jsval \<Rightarrow> bool" where
  "has_prop k (JObj kvs) = (k \<in> fst ` set kvs)"
| "has_prop k v = False"

section \<open>Errors\<close>

text \<open>
  Every \<open>throw new Error(...)\<close> of the source is one constructor, named after the spec's
  taxonomy where it has a name for it:
  \<^item> \<open>NotAnObject\<close>: "Review JSON was not an object."
  \<^item> \<open>MissingFindingsArray\<close>: "Review JSON is missing a findings array."
  \<^item> \<open>EmptyOutput\<close>: "Review command produced no output."
  \<^item> \<open>ParseFailure\<close>: "Failed to parse review JSON from command output."
  \<^item> \<open>InvalidModelSpec spec\<close>: "Invalid model spec: ..."
  \<^item> \<open>ProviderError label payload\<close>: "<label> failed: <formatError(payload)>"
  \<^item> \<open>SessionMissing id known\<close>: "Session status missing for <id>. Known sessions: ..."
  \<^item> \<open>Timeout id\<close>: "Timed out waiting for session <id> to go idle."
  \<^item> \<open>ReviewLoopExceeded n\<close>: "Review loop exceeded <n> iterations without clean results."
  \<^item> \<open>NoSessionObject ctx\<close>: "<ctx> did not return a session object."
  \<^item> \<open>SessionWithoutId ctx response\<close>: "<ctx> returned a session without an id.
    Response: ..." (the spec's MalformedResponse is these two).
  \<^item> \<open>Thrown v\<close>: a value thrown by the provider itself (a rejected promise or a
    synchronous throw).
\<close>

datatype error =
    NotAnObject
  | MissingFindingsArray
  | EmptyOutput
  | ParseFailure
  | InvalidModelSpec jsstring
  | ProviderError jsstring jsval
  | SessionMissing jsstring "jsstring list"
  | Timeout jsstring
  | ReviewLoopExceeded int
  | NoSessionObject jsstring
  | SessionWithoutId jsstring jsval
  | Thrown jsval

section \<open>isFindingsEmpty\<close>

definition isFindingsEmpty :: "jsval \<Rightarrow> error + bool" where
  "isFindingsEmpty reviewJson =
     (if \<not> truthy reviewJson \<or> \<not> typeof_object reviewJson then Inl NotAnObject
      else (case get_prop reviewJson (js ''findings'') of
              JArr findings \<Rightarrow> Inr (length findings = 0)
            | _ \<Rightarrow> Inl MissingFindingsArray))"

section \<open>parseModelSpec\<close>

record model_spec =
  providerID :: jsstring
  modelID :: jsstring

definition parseModelSpec :: "jsstring \<Rightarrow> error + model_spec" where
  "parseModelSpec spec =
     (case indexOf 47 spec of
        None \<Rightarrow> Inl (InvalidModelSpec spec)
      | Some separatorIndex \<Rightarrow>
          (let p = trim (take separatorIndex spec);
               m = trim (drop (separatorIndex + 1) spec)
           in if p = [] \<or> m = [] then Inl (InvalidModelSpec spec)
              else Inr \<lparr>providerID = p, modelID = m\<rparr>))"

section \<open>parseNumber\<close>

definition is_digit :: "nat \<Rightarrow> bool" where
  "is_digit c \<longleftrightarrow> 48 \<le> c \<and> c \<le> 57"

text \<open>The value of a string of decimal digits, most significant first.\<close>

definition digits_value :: "jsstring \<Rightarrow> nat" where
  "digits_value ds = foldl (\<lambda>acc d. 10 * acc + (d - 48)) 0 ds"

text \<open>
  \<open>Number.parseInt(s, 10)\<close>: skip leading white space, read an optional sign, then the
  longest run of decimal digits; no digit at all is NaN (\<open>None\<close>). The result is the sign
  and the magnitude \<open>(negative, m)\<close> of the mathematical integer read.
\<close>

definition parseInt10 :: "jsstring \<Rightarrow> (bool \<times> nat) option" where
  "parseInt10 s =
     (let t = trim_start s;
          negative = (t \<noteq> [] \<and> hd t = 45);
          u = (if t \<noteq> [] \<and> (hd t = 43 \<or> hd t = 45) then tl t else t);
          z = takeWhile is_digit u
      in if z = [] then None else Some (negative, digits_value z))"

text \<open>
  The Number value of a magnitude. Up to \<open>2 ^ 53\<close> every integer is a double. Beyond it
  the language leaves the approximation to the implementation, and a magnitude too large
  for a double becomes Infinity: that rounding is the parameter \<open>rnd\<close>, with \<open>None\<close> for
  Infinity.
\<close>

definition number_value :: "(nat \<Rightarrow> nat option) \<Rightarrow> nat \<Rightarrow> nat option" where
  "number_value rnd m = (if m \<le> 2 ^ 53 then Some m else rnd m)"

text \<open>
  \<open>value\<close> is the environment variable: \<open>None\<close> when it is not set. The fallback and the
  result are finite integral numbers.
\<close>

definition parseNumber :: "(nat \<Rightarrow> nat option) \<Rightarrow> jsstring option \<Rightarrow> int \<Rightarrow> int" where
  "parseNumber rnd val fallback =
     (case val of
        None \<Rightarrow> fallback
      | Some s \<Rightarrow>
          if s = [] then fallback
          else (case parseInt10 s of
                  None \<Rightarrow> fallback
                | Some (negative, m) \<Rightarrow>
                    (case number_value rnd m of
                       None \<Rightarrow> fallback
                     | Some d \<Rightarrow>
                         (let parsed = (if negative then - int d else int d)
                          in if parsed > 0 then parsed else fallback))))"

section \<open>unwrap\<close>

definition unwrap :: "jsval \<Rightarrow> jsstring \<Rightarrow> error + jsval" where
  "unwrap result label =
     (if truthy result \<and> typeof_object result \<and> has_prop (js ''data'') result then
        (if truthy (get_prop result (js ''error''))
         then Inl (ProviderError label (get_prop result (js ''error'')))
         else Inr (get_prop result (js ''data'')))
      else Inr result)"

section \<open>hasUnfinishedTasks\<close>

text \<open>
  The regular expression \<open>/^\s*[-*+]\s+\[\s\]/m\<close> is a sequence of nodes: the assertion
  \<open>^\<close>, single characters of a class, and the greedy repetitions \<open>*\<close> and \<open>+\<close> of a
  class. \<open>matches ns prev s\<close> says that the nodes \<open>ns\<close> match a prefix of \<open>s\<close>, where
  \<open>prev\<close> is the character just before \<open>s\<close> in the whole text (\<open>None\<close> at the start of
  the text). A repetition tries every number of characters, as backtracking does.
\<close>

datatype node =
    LineStart
  | One "nat \<Rightarrow> bool"
  | Many "nat \<Rightarrow> bool"
  | Many1 "nat \<Rightarrow> bool"

text \<open>The LineTerminator characters: LF, CR, U+2028 and U+2029.\<close>

definition is_line_terminator :: "nat \<Rightarrow> bool" where
  "is_line_terminator c \<longleftrightarrow> c = 10 \<or> c = 13 \<or> c = 8232 \<or> c = 8233"

text \<open>With the flag \<open>m\<close>, \<open>^\<close> holds at the start of the text and after a line terminator.\<close>

definition at_line_start :: "nat option \<Rightarrow> bool" where
  "at_line_start prev = (case prev of None \<Rightarrow> True | Some c \<Rightarrow> is_line_terminator c)"

function matches :: "node list \<Rightarrow> nat option \<Rightarrow> jsstring \<Rightarrow> bool" where
  "matches [] prev s = True"
| "matches (LineStart # ns) prev s = (at_line_start prev \<and> matches ns prev s)"
| "matches (One P # ns) prev [] = False"
| "matches (One P # ns) prev (c # cs) = (P c \<and> matches ns (Some c) cs)"
| "matches (Many P # ns) prev [] = matches ns prev []"
| "matches (Many P # ns) prev (c # cs) =
     ((P c \<and> matches (Many P # ns) (Some c) cs) \<or> matches ns prev (c # cs))"
| "matches (Many1 P # ns) prev [] = False"
| "matches (Many1 P # ns) prev (c # cs) = (P c \<and> matches (Many P # ns) (Some c) cs)"
  by pat_completeness auto
termination
  by (relation "measure (\<lambda>(ns, prev, s). 2 * length s + length ns)") auto

text \<open>\<open>RegExp.prototype.test\<close> without the flags \<open>g\<close> and \<open>y\<close>: a match may start anywhere.\<close>

fun regex_test :: "node list \<Rightarrow> nat option \<Rightarrow> jsstring \<Rightarrow> bool" where
  "regex_test ns prev [] = matches ns prev []"
| "regex_test ns prev (c # cs) = (matches ns prev (c # cs) \<or> regex_test ns (Some c) cs)"

definition is_bullet :: "nat \<Rightarrow> bool" where
  "is_bullet c \<longleftrightarrow> c = 45 \<or> c = 42 \<or> c = 43"

definition unchecked_pattern :: "node list" where
  "unchecked_pattern =
     [LineStart, Many is_js_space, One is_bullet, Many1 is_js_space,
      One (\<lambda>c. c = 91), One is_js_space, One (\<lambda>c. c = 93)]"

text \<open>
  \<open>hasUnfinishedTasks\<close>, applied to the content that \<open>fs.readFile\<close> returned for the plan.
\<close>

definition hasUnfinishedTasks :: "jsstring \<Rightarrow> bool" where
  "hasUnfinishedTasks content = regex_test unchecked_pattern None content"

text \<open>
  The reading of the spec, line by line: the lines of a text are its maximal runs without
  a line terminator, and a line is unchecked when, after leading white space, it has a
  bullet marker, white space, and a bracket pair around a white-space character.
\<close>

fun lines_of :: "jsstring \<Rightarrow> jsstring list" where
  "lines_of [] = [[]]"
| "lines_of (c # cs) =
     (if is_line_terminator c then [] # lines_of cs
      else (case lines_of cs of l # ls \<Rightarrow> (c # l) # ls | [] \<Rightarrow> [[c]]))"

definition line_is_unchecked :: "jsstring \<Rightarrow> bool" where
  "line_is_unchecked line = matches (tl unchecked_pattern) None line"

text \<open>
  For the characterisation of a match: the character before the rest of a text after a
  prefix \<open>s\<close> of it, and the shape of a text that starts with an unchecked task.
\<close>

definition lastc :: "nat option \<Rightarrow> jsstring \<Rightarrow> nat option" where
  "lastc prev s = (if s = [] then prev else Some (last s))"

definition task_prefix :: "jsstring \<Rightarrow> bool" where
  "task_prefix s \<longleftrightarrow>
     (\<exists>ws1 b ws2 c rest.
        s = ws1 @ b # ws2 @ 91 # c # 93 # rest \<and>
        list_all is_js_space ws1 \<and> is_bullet b \<and>
        ws2 \<noteq> [] \<and> list_all is_js_space ws2 \<and> is_js_space c)"

section \<open>JSON.parse\<close>

text \<open>
  \<open>JSON.parse\<close> is a builtin of the host language. It is modelled by a deterministic
  pushdown automaton for the JSON grammar (ECMA-404) that reads the text one code unit
  at a time and builds the value as it goes; \<open>None\<close> stands for the SyntaxError.
\<close>

definition is_json_space :: "nat \<Rightarrow> bool" where
  "is_json_space c \<longleftrightarrow> c = 9 \<or> c = 10 \<or> c = 13 \<or> c = 32"

definition hex_value :: "nat \<Rightarrow> nat option" where
  "hex_value c =
     (if 48 \<le> c \<and> c \<le> 57 then Some (c - 48)
      else if 97 \<le> c \<and> c \<le> 102 then Some (c - 87)
      else if 65 \<le> c \<and> c \<le> 70 then Some (c - 55)
      else None)"

text \<open>
  Defining a property: a key that is already there keeps its place and takes the new
  value, a new key goes to the end.
\<close>

fun set_prop :: "jsstring \<Rightarrow> jsval \<Rightarrow> (jsstring \<times> jsval) list \<Rightarrow> (jsstring \<times> jsval) list" where
  "set_prop k v [] = [(k, v)]"
| "set_prop k v ((k', v') # kvs) =
     (if k' = k then (k, v) # kvs else (k', v') # set_prop k v kvs)"

text \<open>The states of the number grammar \<open>-?(0|[1-9][0-9]*)(\.[0-9]+)?([eE][+-]?[0-9]+)?\<close>.\<close>

datatype nstate = NMinus | NZero | NInt | NDot | NFrac | NExpMark | NExpSign | NExp

definition num_step :: "nstate \<Rightarrow> nat \<Rightarrow> nstate option" where
  "num_step ns c =
     (case ns of
        NMinus \<Rightarrow> if c = 48 then Some NZero else if 49 \<le> c \<and> c \<le> 57 then Some NInt else None
      | NZero \<Rightarrow> if c = 46 then Some NDot else if c = 101 \<or> c = 69 then Some NExpMark else None
      | NInt \<Rightarrow> if is_digit c then Some NInt else if c = 46 then Some NDot
                else if c = 101 \<or> c = 69 then Some NExpMark else None
      | NDot \<Rightarrow> if is_digit c then Some NFrac else None
      | NFrac \<Rightarrow> if is_digit c then Some NFrac
                 else if c = 101 \<or> c = 69 then Some NExpMark else None
      | NExpMark \<Rightarrow> if c = 43 \<or> c = 45 then Some NExpSign
                    else if is_digit c then Some NExp else None
      | NExpSign \<Rightarrow> if is_digit c then Some NExp else None
      | NExp \<Rightarrow> if is_digit c then Some NExp else None)"

fun num_final :: "nstate \<Rightarrow> bool" where
  "num_final NZero = True"
| "num_final NInt = True"
| "num_final NFrac = True"
| "num_final NExp = True"
| "num_final ns = False"

text \<open>The exact value of a number literal that the grammar accepted.\<close>

definition number_of_lexeme :: "jsstring \<Rightarrow> rat" where
  "number_of_lexeme lexeme =
     (let negative = (lexeme \<noteq> [] \<and> hd lexeme = 45);
          s1 = (if negative then tl lexeme else lexeme);
          ip = takeWhile is_digit s1;
          s2 = dropWhile is_digit s1;
          fp = (if s2 \<noteq> [] \<and> hd s2 = 46 then takeWhile is_digit (tl s2) else []);
          s3 = (if s2 \<noteq> [] \<and> hd s2 = 46 then dropWhile is_digit (tl s2) else s2);
          ex = (if s3 = [] then [] else tl s3);
          eneg = (ex \<noteq> [] \<and> hd ex = 45);
          ed = digits_value (if ex \<noteq> [] \<and> (hd ex = 43 \<or> hd ex = 45) then tl ex else ex);
          mant = of_nat (digits_value (ip @ fp)) / 10 ^ length fp;
          val = (if eneg then mant / 10 ^ ed else mant * 10 ^ ed)
      in if negative then - val else val)"

text \<open>
  The stack has one frame for each array and object that is open: the elements read so
  far, or the properties read so far, with the key whose value is being read.
\<close>

datatype frame =
    ArrF "jsval list"
  | ObjF "(jsstring \<times> jsval) list"
  | ObjV "(jsstring \<times> jsval) list" jsstring

text \<open>
  What the automaton expects next: a value; a value or \<open>]\<close>; a key or \<open>}\<close>; a key;
  the colon after a key; a comma or a closing bracket; nothing but white space after the
  top-level value. Inside a string (a key when the flag is set): plain characters, the
  character after a backslash, the four hex digits of \<open>\u\<close>. Inside a number; inside one
  of the literals \<open>true\<close>, \<open>false\<close>, \<open>null\<close>, with the characters still to come.
\<close>

datatype mode =
    MValue
  | MArrStart
  | MObjStart
  | MObjKey
  | MColon jsstring
  | MAfter
  | MDone jsval
  | MStr bool jsstring
  | MEsc bool jsstring
  | MHex bool jsstring nat nat
  | MNum nstate jsstring
  | MLit jsstring jsval

type_synonym pstate = "mode \<times> frame list"

text \<open>A value is complete: it is the result, or it goes into the innermost open frame.\<close>

fun complete :: "jsval \<Rightarrow> frame list \<Rightarrow> pstate option" where
  "complete v [] = Some (MDone v, [])"
| "complete v (ArrF vs # st) = Some (MAfter, ArrF (vs @ [v]) # st)"
| "complete v (ObjV kvs k # st) = Some (MAfter, ObjF (set_prop k v kvs) # st)"
| "complete v (ObjF kvs # st) = None"

fun close_array :: "frame list \<Rightarrow> pstate option" where
  "close_array (ArrF vs # st) = complete (JArr vs) st"
| "close_array st = None"

fun close_object :: "frame list \<Rightarrow> pstate option" where
  "close_object (ObjF kvs # st) = complete (JObj kvs) st"
| "close_object st = None"

fun after_step :: "pstate \<Rightarrow> nat \<Rightarrow> pstate option" where
  "after_step (MDone v, st) c = (if is_json_space c then Some (MDone v, st) else None)"
| "after_step (MAfter, st) c =
     (if is_json_space c then Some (MAfter, st)
      else if c = 44 then
        (case st of ArrF vs # st' \<Rightarrow> Some (MValue, st)
                  | ObjF kvs # st' \<Rightarrow> Some (MObjKey, st)
                  | _ \<Rightarrow> None)
      else if c = 93 then close_array st
      else if c = 125 then close_object st
      else None)"
| "after_step (m, st) c = None"

definition value_step :: "frame list \<Rightarrow> nat \<Rightarrow> pstate option" where
  "value_step st c =
     (if c = 123 then Some (MObjStart, ObjF [] # st)
      else if c = 91 then Some (MArrStart, ArrF [] # st)
      else if c = 34 then Some (MStr False [], st)
      else if c = 45 then Some (MNum NMinus [c], st)
      else if c = 48 then Some (MNum NZero [c], st)
      else if 49 \<le> c \<and> c \<le> 57 then Some (MNum NInt [c], st)
      else if c = 116 then Some (MLit (js ''rue'') (JBool True), st)
      else if c = 102 then Some (MLit (js ''alse'') (JBool False), st)
      else if c = 110 then Some (MLit (js ''ull'') JNull, st)
      else None)"

definition escape_char :: "nat \<Rightarrow> nat option" where
  "escape_char c =
     (if c = 34 \<or> c = 92 \<or> c = 47 then Some c
      else if c = 98 then Some 8
      else if c = 102 then Some 12
      else if c = 110 then Some 10
      else if c = 114 then Some 13
      else if c = 116 then Some 9
      else None)"

fun step :: "pstate \<Rightarrow> nat \<Rightarrow> pstate option" where
  "step (MValue, st) c = (if is_json_space c then Some (MValue, st) else value_step st c)"
| "step (MArrStart, st) c =
     (if is_json_space c then Some (MArrStart, st)
      else if c = 93 then close_array st
      else value_step st c)"
| "step (MObjStart, st) c =
     (if is_json_space c then Some (MObjStart, st)
      else if c = 125 then close_object st
      else if c = 34 then Some (MStr True [], st)
      else None)"
| "step (MObjKey, st) c =
     (if is_json_space c then Some (MObjKey, st)
      else if c = 34 then Some (MStr True [], st)
      else None)"
| "step (MColon k, st) c =
     (if is_json_space c then Some (MColon k, st)
      else if c = 58 then
        (case st of ObjF kvs # st' \<Rightarrow> Some (MValue, ObjV kvs k # st') | _ \<Rightarrow> None)
      else None)"
| "step (MAfter, st) c = after_step (MAfter, st) c"
| "step (MDone v, st) c = after_step (MDone v, st) c"
| "step (MStr key acc, st) c =
     (if c = 34 then (if key then Some (MColon acc, st) else complete (JStr acc) st)
      else if c = 92 then Some (MEsc key acc, st)
      else if c < 32 then None
      else Some (MStr key (acc @ [c]), st))"
| "step (MEsc key acc, st) c =
     (if c = 117 then Some (MHex key acc 0 0, st)
      else (case escape_char c of
              Some e \<Rightarrow> Some (MStr key (acc @ [e]), st)
            | None \<Rightarrow> None))"
| "step (MHex key acc n v, st) c =
     (case hex_value c of
        None \<Rightarrow> None
      | Some h \<Rightarrow>
          if n = 3 then Some (MStr key (acc @ [16 * v + h]), st)
          else Some (MHex key acc (n + 1) (16 * v + h), st))"
| "step (MNum ns lexeme, st) c =
     (case num_step ns c of
        Some ns' \<Rightarrow> Some (MNum ns' (lexeme @ [c]), st)
      | None \<Rightarrow>
          if num_final ns then
            (case complete (JNum (number_of_lexeme lexeme)) st of
               Some s' \<Rightarrow> after_step s' c
             | None \<Rightarrow> None)
          else None)"
| "step (MLit rest v, st) c =
     (case rest of
        [] \<Rightarrow> None
      | x # xs \<Rightarrow>
          if c = x then (if xs = [] then complete v st else Some (MLit xs v, st))
          else None)"

fun run :: "pstate \<Rightarrow> jsstring \<Rightarrow> pstate option" where
  "run s [] = Some s"
| "run s (c # cs) = (case step s c of None \<Rightarrow> None | Some s' \<Rightarrow> run s' cs)"

text \<open>At the end of the text the top-level value must be complete.\<close>

fun finish :: "pstate \<Rightarrow> jsval option" where
  "finish (MDone v, []) = Some v"
| "finish (MNum ns lexeme, []) =
     (if num_final ns then Some (JNum (number_of_lexeme lexeme)) else None)"
| "finish s = None"

definition JSON_parse :: "jsstring \<Rightarrow> jsval option" where
  "JSON_parse text = (case run (MValue, []) text of None \<Rightarrow> None | Some s \<Rightarrow> finish s)"

subsection \<open>The lexical skeleton of a JSON text\<close>

text \<open>
  What the automaton does to two features of the text only: whether the position is
  outside a string, inside one, or just after a backslash inside one, and how many
  brackets are open. \<open>LBad\<close> is the state after a backslash outside a string, which no
  JSON text has. The automaton follows this skeleton on every text it does not reject.
\<close>

datatype lmode = LOut | LIn | LEsc | LBad

fun lstep :: "lmode \<times> int \<Rightarrow> nat \<Rightarrow> lmode \<times> int" where
  "lstep (LOut, d) c =
     (if c = 34 then (LIn, d)
      else if c = 92 then (LBad, d)
      else if c = 123 \<or> c = 91 then (LOut, d + 1)
      else if c = 125 \<or> c = 93 then (LOut, d - 1)
      else (LOut, d))"
| "lstep (LIn, d) c =
     (if c = 34 then (LOut, d) else if c = 92 then (LEsc, d) else (LIn, d))"
| "lstep (LEsc, d) c = (LIn, d)"
| "lstep (LBad, d) c = (LBad, d)"

definition lscan :: "lmode \<times> int \<Rightarrow> jsstring \<Rightarrow> lmode \<times> int" where
  "lscan s cs = foldl lstep s cs"

fun lmode_of :: "mode \<Rightarrow> lmode" where
  "lmode_of (MStr key acc) = LIn"
| "lmode_of (MHex key acc n v) = LIn"
| "lmode_of (MEsc key acc) = LEsc"
| "lmode_of m = LOut"

definition skeleton :: "pstate \<Rightarrow> lmode \<times> int" where
  "skeleton s = (lmode_of (fst s), int (length (snd s)))"

text \<open>The characters still to come of a literal are lower-case letters.\<close>

fun wf_mode :: "mode \<Rightarrow> bool" where
  "wf_mode (MLit rest v) = list_all (\<lambda>x. 97 \<le> x \<and> x \<le> 122) rest"
| "wf_mode m = True"

text \<open>Inside the top-level value some bracket is open; after it the automaton is done.\<close>

fun is_done :: "mode \<Rightarrow> bool" where
  "is_done (MDone v) = True"
| "is_done m = False"

definition nested :: "pstate \<Rightarrow> bool" where
  "nested s \<longleftrightarrow> snd s \<noteq> [] \<or> is_done (fst s)"

text \<open>
  Two scans of the same text that start on opposite sides of a quotation mark stay on
  opposite sides of every later one, unless one of them goes wrong.
\<close>

definition opposite :: "lmode \<Rightarrow> lmode \<Rightarrow> bool" where
  "opposite m1 m2 \<longleftrightarrow> m1 = LBad \<or> m2 = LBad \<or> (m1 = LIn \<and> m2 = LOut) \<or> (m1 = LOut \<and> m2 = LIn)"

section \<open>extractReviewJson\<close>

text \<open>
  \<open>s.lastIndexOf(c, position)\<close> for a one-character search string: the search starts at
  \<open>position\<close> clamped to the range from \<open>0\<close> to \<open>length s - 1\<close>, so a negative position is
  the same as \<open>0\<close>, and runs downwards; \<open>position\<close> is \<open>None\<close> when the argument is
  left out, which starts at the end. The result is \<open>-1\<close> when nothing is found.
\<close>

fun find_down :: "nat \<Rightarrow> jsstring \<Rightarrow> nat \<Rightarrow> int" where
  "find_down c s 0 = (if s \<noteq> [] \<and> s ! 0 = c then 0 else - 1)"
| "find_down c s (Suc k) =
     (if Suc k < length s \<and> s ! Suc k = c then int (Suc k) else find_down c s k)"

definition lastIndexOf :: "nat \<Rightarrow> jsstring \<Rightarrow> int option \<Rightarrow> int" where
  "lastIndexOf c s position =
     (if s = [] then - 1
      else (let last_start = int (length s) - 1;
                start = (case position of
                           None \<Rightarrow> last_start
                         | Some pos \<Rightarrow> min (max pos 0) last_start)
            in find_down c s (nat start)))"

text \<open>
  The \<open>while\<close> loop of \<open>extractReviewJson\<close>. It is not known to end, so its result is an
  option: \<open>None\<close> when the loop runs forever.
\<close>

partial_function (option) extract_loop :: "jsstring \<Rightarrow> int \<Rightarrow> (error + jsval) option" where
  "extract_loop trimmed index =
     (if index \<noteq> - 1 then
        (case JSON_parse (trim (drop (nat index) trimmed)) of
           Some parsed \<Rightarrow>
             if truthy parsed \<and> typeof_object parsed \<and> has_prop (js ''findings'') parsed
             then Some (Inr parsed)
             else extract_loop trimmed (lastIndexOf 123 trimmed (Some (index - 1)))
         | None \<Rightarrow> extract_loop trimmed (lastIndexOf 123 trimmed (Some (index - 1))))
      else Some (Inl ParseFailure))"

declare extract_loop.simps [code]

definition extractReviewJson :: "jsstring \<Rightarrow> (error + jsval) option" where
  "extractReviewJson output =
     (let trimmed = trim output
      in if trimmed = [] then Some (Inl EmptyOutput)
         else extract_loop trimmed (lastIndexOf 123 trimmed None))"

text \<open>The test that the loop applies to the result of \<open>JSON.parse\<close>.\<close>

definition accepted :: "jsval option \<Rightarrow> bool" where
  "accepted r = (case r of None \<Rightarrow> False
     | Some parsed \<Rightarrow> truthy parsed \<and> typeof_object parsed \<and> has_prop (js ''findings'') parsed)"

section \<open>The session provider and the host\<close>

text \<open>
  The provider is reached through \<open>createOpencode\<close> and the methods of the client it
  returns. A request is one method call with the arguments the orchestrator passes.
\<close>

datatype request =
    SessionCreate jsstring jsstring
  | SessionPrompt jsstring jsstring jsstring model_spec jsstring
  | SessionCommand jsstring jsstring jsstring jsstring jsstring jsstring
  | SessionStatus jsstring
  | SessionMessage jsstring jsval jsstring
  | InstanceDispose jsstring

text \<open>
  \<open>SessionCreate directory title\<close>, \<open>SessionPrompt id directory agent model text\<close>,
  \<open>SessionCommand id directory command arguments agent model\<close>, \<open>SessionStatus directory\<close>,
  \<open>SessionMessage id messageID directory\<close>, \<open>InstanceDispose directory\<close>.

  What a method call evaluates to: it throws, it returns a plain value, or it returns a
  promise that is later fulfilled or rejected.
\<close>

datatype callresult =
    Throws jsval
  | Sync jsval
  | Resolves jsval
  | Rejects jsval

text \<open>
  \<open>await unwrap(call, label)\<close>. \<open>unwrap\<close> runs before the \<open>await\<close>, on what the call
  returned. A promise is an object without a \<open>data\<close> property, so \<open>unwrap\<close> hands it back
  and the \<open>await\<close> yields the value it is fulfilled with, or throws the rejection.
\<close>

fun await_unwrap :: "callresult \<Rightarrow> jsstring \<Rightarrow> error + jsval" where
  "await_unwrap (Throws e) label = Inl (Thrown e)"
| "await_unwrap (Sync v) label = unwrap v label"
| "await_unwrap (Resolves v) label = Inr v"
| "await_unwrap (Rejects e) label = Inl (Thrown e)"

text \<open>The lines that \<open>logStep\<close> prints, one constructor for each call of it.\<close>

datatype logmsg =
    StartingMilestone nat
  | AllMilestonesCompleted
  | RunningReview int int
  | ReviewClean
  | ReviewFound "nat option"
  | DisposeFailed error

text \<open>
  What the orchestrator does to the outside, in order: an instance created for a model,
  a method called on a client, a sleep, \<open>close\<close> called on a server, a line logged.
\<close>

datatype event =
    Created jsstring
  | Call nat request
  | Slept int
  | Closed nat
  | Logged logmsg

text \<open>
  The host is everything the orchestrator does not define: the provider, the clock, the
  timer, the environment variables, the rounding of large integers (see \<open>number_value\<close>)
  and \<open>JSON.stringify(v, null, 2)\<close>. It acts on a world of any type \<open>'w\<close>. Clients and
  servers are handles, numbers here. \<open>h_close\<close> is \<open>server.close()\<close>, a synchronous call:
  it returns (\<open>None\<close>) or throws a value (\<open>Some e\<close>).
\<close>

record 'w host =
  h_createOpencode :: "jsstring \<Rightarrow> 'w \<Rightarrow> (jsval + nat \<times> nat) \<times> 'w"
  h_call :: "nat \<Rightarrow> request \<Rightarrow> 'w \<Rightarrow> callresult \<times> 'w"
  h_now :: "'w \<Rightarrow> int \<times> 'w"
  h_sleep :: "int \<Rightarrow> 'w \<Rightarrow> 'w"
  h_close :: "nat \<Rightarrow> 'w \<Rightarrow> jsval option \<times> 'w"
  h_env :: "jsstring \<Rightarrow> jsstring option"
  h_round :: "nat \<Rightarrow> nat option"
  h_stringify :: "jsval \<Rightarrow> jsstring"

record 'w state =
  world :: 'w
  trace :: "event list"

text \<open>
  An asynchronous function of the source is a function from the state to an optional
  outcome: \<open>None\<close> when it never returns, otherwise the error thrown or the value
  returned, with the state it leaves.
\<close>

type_synonym ('a, 'w) prog = "'w state \<Rightarrow> ((error + 'a) \<times> 'w state) option"

definition returnP :: "'a \<Rightarrow> ('a, 'w) prog" where
  "returnP x = (\<lambda>s. Some (Inr x, s))"

definition throwP :: "error \<Rightarrow> ('a, 'w) prog" where
  "throwP e = (\<lambda>s. Some (Inl e, s))"

definition liftE :: "error + 'a \<Rightarrow> ('a, 'w) prog" where
  "liftE r = (\<lambda>s. Some (r, s))"

definition bindP :: "('a, 'w) prog \<Rightarrow> ('a \<Rightarrow> ('b, 'w) prog) \<Rightarrow> ('b, 'w) prog" where
  "bindP m k =
     (\<lambda>s. case m s of
             None \<Rightarrow> None
           | Some (Inl e, s1) \<Rightarrow> Some (Inl e, s1)
           | Some (Inr x, s1) \<Rightarrow> k x s1)"

text \<open>\<open>try { body } catch (error) { handler }\<close>.\<close>

definition catchP :: "('a, 'w) prog \<Rightarrow> (error \<Rightarrow> ('a, 'w) prog) \<Rightarrow> ('a, 'w) prog" where
  "catchP body handler =
     (\<lambda>s. case body s of
             None \<Rightarrow> None
           | Some (Inl e, s1) \<Rightarrow> handler e s1
           | Some (Inr x, s1) \<Rightarrow> Some (Inr x, s1))"

text \<open>
  \<open>try { body } finally { cleanup }\<close>: the cleanup runs after the body however it ended,
  and the outcome is the body's unless the cleanup itself throws.
\<close>

definition finallyP :: "('a, 'w) prog \<Rightarrow> (unit, 'w) prog \<Rightarrow> ('a, 'w) prog" where
  "finallyP body cleanup =
     (\<lambda>s. case body s of
             None \<Rightarrow> None
           | Some (r, s1) \<Rightarrow>
               (case cleanup s1 of
                  None \<Rightarrow> None
                | Some (Inl e, s2) \<Rightarrow> Some (Inl e, s2)
                | Some (Inr u, s2) \<Rightarrow> Some (r, s2)))"

definition emit :: "event \<Rightarrow> 'w state \<Rightarrow> 'w state" where
  "emit ev s = s\<lparr>trace := trace s @ [ev]\<rparr>"

definition logStep :: "logmsg \<Rightarrow> (unit, 'w) prog" where
  "logStep msg = (\<lambda>s. Some (Inr (), emit (Logged msg) s))"

text \<open>\<open>await unwrap(client.method(...), label)\<close>.\<close>

definition call_unwrap :: "'w host \<Rightarrow> nat \<Rightarrow> request \<Rightarrow> jsstring \<Rightarrow> (jsval, 'w) prog" where
  "call_unwrap h client req label =
     (\<lambda>s. case h_call h client req (world s) of
             (cr, w) \<Rightarrow> Some (await_unwrap cr label, emit (Call client req) (s\<lparr>world := w\<rparr>)))"

definition date_now :: "'w host \<Rightarrow> 'w state \<Rightarrow> int \<times> 'w state" where
  "date_now h s = (case h_now h (world s) of (t, w) \<Rightarrow> (t, s\<lparr>world := w\<rparr>))"

definition delay :: "'w host \<Rightarrow> int \<Rightarrow> 'w state \<Rightarrow> 'w state" where
  "delay h ms s = emit (Slept ms) (s\<lparr>world := h_sleep h ms (world s)\<rparr>)"

definition createOpencode :: "'w host \<Rightarrow> jsstring \<Rightarrow> (nat \<times> nat, 'w) prog" where
  "createOpencode h model =
     (\<lambda>s. case h_createOpencode h model (world s) of
             (r, w) \<Rightarrow>
               Some ((case r of Inl e \<Rightarrow> Inl (Thrown e) | Inr cs \<Rightarrow> Inr cs),
                     emit (Created model) (s\<lparr>world := w\<rparr>)))"

definition server_close :: "'w host \<Rightarrow> nat \<Rightarrow> (unit, 'w) prog" where
  "server_close h server =
     (\<lambda>s. case h_close h server (world s) of
             (thrown, w) \<Rightarrow>
               Some ((case thrown of None \<Rightarrow> Inr () | Some e \<Rightarrow> Inl (Thrown e)),
                     emit (Closed server) (s\<lparr>world := w\<rparr>)))"

subsection \<open>Configuration\<close>

definition DEFAULT_MODEL :: jsstring where
  "DEFAULT_MODEL = js ''github-copilot/gpt-5.2-codex''"

definition DEFAULT_AGENT :: jsstring where
  "DEFAULT_AGENT = js ''build-gpt-5.2-codex''"

definition DEFAULT_REVIEW_COMMAND_NAME :: jsstring where
  "DEFAULT_REVIEW_COMMAND_NAME = js ''review-uncommited''"

definition DEFAULT_REVIEW_COMMAND_ARGUMENTS :: jsstring where
  "DEFAULT_REVIEW_COMMAND_ARGUMENTS = []"

definition DEFAULT_REVIEW_TIMEOUT_MS :: int where
  "DEFAULT_REVIEW_TIMEOUT_MS = 60 * 60 * 1000"

definition DEFAULT_SESSION_TIMEOUT_MS :: int where
  "DEFAULT_SESSION_TIMEOUT_MS = 2 * 60 * 60 * 1000"

definition DEFAULT_STATUS_POLL_INTERVAL_MS :: int where
  "DEFAULT_STATUS_POLL_INTERVAL_MS = 2000"

definition DEFAULT_MAX_REVIEW_ITERATIONS :: int where
  "DEFAULT_MAX_REVIEW_ITERATIONS = 20"

text \<open>\<open>process.env.NAME || fallback\<close>: an unset or empty variable gives the fallback.\<close>

definition env_or :: "'w host \<Rightarrow> jsstring \<Rightarrow> jsstring \<Rightarrow> jsstring" where
  "env_or h name fallback =
     (case h_env h name of None \<Rightarrow> fallback | Some v \<Rightarrow> if v = [] then fallback else v)"

definition env_number :: "'w host \<Rightarrow> jsstring \<Rightarrow> int \<Rightarrow> int" where
  "env_number h name fallback = parseNumber (h_round h) (h_env h name) fallback"

section \<open>waitForSessionIdle\<close>

fun decimal :: "nat \<Rightarrow> jsstring" where
  "decimal n = (if n < 10 then [48 + n] else decimal (n div 10) @ [48 + n mod 10])"

text \<open>
  An array index is a canonical decimal numeral below \<open>2 ^ 32 - 1\<close>: the property names
  that arrays and strings treat as positions, and that \<open>Object.keys\<close> lists first.
\<close>

definition array_index :: "jsstring \<Rightarrow> nat option" where
  "array_index k =
     (if k \<noteq> [] \<and> list_all is_digit k \<and> (hd k \<noteq> 48 \<or> k = [48]) \<and> digits_value k < 2 ^ 32 - 1
      then Some (digits_value k) else None)"

text \<open>
  \<open>Object.keys(v)\<close> for a truthy value: the own enumerable string keys, the array indices
  first in ascending order, then the other keys in the order of their creation. In the
  list of an object's properties the first pair with a given key is the property.
\<close>

fun object_keys :: "jsval \<Rightarrow> jsstring list" where
  "object_keys (JObj kvs) =
     (let ks = rev (remdups (rev (map fst kvs)))
      in sort_key digits_value (filter (\<lambda>k. array_index k \<noteq> None) ks) @
         filter (\<lambda>k. array_index k = None) ks)"
| "object_keys (JArr xs) = map decimal [0..<length xs]"
| "object_keys (JStr s) = map decimal [0..<length s]"
| "object_keys v = []"

text \<open>
  The string-keyed properties of the built-in prototypes, from which every value other
  than \<open>undefined\<close> and \<open>null\<close> inherits: \<open>Object.prototype\<close>, and before it
  \<open>Array.prototype\<close>, \<open>String.prototype\<close>, \<open>Number.prototype\<close> or \<open>Boolean.prototype\<close>.
  The lists are those of ECMAScript 2024 with its Annex B; the one of \<open>Object.prototype\<close>
  has been the same since ECMAScript 2015.
\<close>

definition object_prototype_names :: "jsstring list" where
  "object_prototype_names =
     map js [''constructor'', ''hasOwnProperty'', ''isPrototypeOf'', ''propertyIsEnumerable'',
       ''toLocaleString'', ''toString'', ''valueOf'', ''__proto__'', ''__defineGetter__'',
       ''__defineSetter__'', ''__lookupGetter__'', ''__lookupSetter__'']"

definition array_prototype_names :: "jsstring list" where
  "array_prototype_names =
     map js [''at'', ''concat'', ''constructor'', ''copyWithin'', ''entries'', ''every'', ''fill'',
       ''filter'', ''find'', ''findIndex'', ''findLast'', ''findLastIndex'', ''flat'', ''flatMap'',
       ''forEach'', ''includes'', ''indexOf'', ''join'', ''keys'', ''lastIndexOf'', ''map'', ''pop'',
       ''push'', ''reduce'', ''reduceRight'', ''reverse'', ''shift'', ''slice'', ''some'', ''sort'',
       ''splice'', ''toLocaleString'', ''toReversed'', ''toSorted'', ''toSpliced'', ''toString'',
       ''unshift'', ''values'', ''with'']"

definition string_prototype_names :: "jsstring list" where
  "string_prototype_names =
     map js [''anchor'', ''at'', ''big'', ''blink'', ''bold'', ''charAt'', ''charCodeAt'',
       ''codePointAt'', ''concat'', ''constructor'', ''endsWith'', ''fixed'', ''fontcolor'',
       ''fontsize'', ''includes'', ''indexOf'', ''isWellFormed'', ''italics'', ''lastIndexOf'',
       ''link'', ''localeCompare'', ''match'', ''matchAll'', ''normalize'', ''padEnd'', ''padStart'',
       ''repeat'', ''replace'', ''replaceAll'', ''search'', ''slice'', ''small'', ''split'',
       ''startsWith'', ''strike'', ''sub'', ''substr'', ''substring'', ''sup'', ''toLocaleLowerCase'',
       ''toLocaleUpperCase'', ''toLowerCase'', ''toString'', ''toUpperCase'', ''toWellFormed'',
       ''trim'', ''trimEnd'', ''trimLeft'', ''trimRight'', ''trimStart'', ''valueOf'']"

definition number_prototype_names :: "jsstring list" where
  "number_prototype_names =
     map js [''constructor'', ''toExponential'', ''toFixed'', ''toLocaleString'', ''toPrecision'',
       ''toString'', ''valueOf'']"

definition boolean_prototype_names :: "jsstring list" where
  "boolean_prototype_names = map js [''constructor'', ''toString'', ''valueOf'']"

text \<open>
  What a property read under a computed name gives: a value of the kind modelled here,
  or one of the built-in functions and prototype objects of the runtime, which is truthy
  and has no property \<open>type\<close>.
\<close>

datatype member = Value jsval | Builtin

definition inherited :: "jsstring list \<Rightarrow> jsstring \<Rightarrow> member" where
  "inherited names k = (if k \<in> set names then Builtin else Value JUndefined)"

text \<open>
  \<open>v?.[k]\<close>: \<open>undefined\<close> when \<open>v\<close> is \<open>undefined\<close> or \<open>null\<close>; otherwise the own property
  named \<open>k\<close> (of an object its entry, of an array or a string an element or \<open>length\<close>),
  and without one what the prototypes hold under that name.
\<close>

fun optional_member :: "jsval \<Rightarrow> jsstring \<Rightarrow> member" where
  "optional_member JUndefined k = Value JUndefined"
| "optional_member JNull k = Value JUndefined"
| "optional_member (JBool b) k = inherited (boolean_prototype_names @ object_prototype_names) k"
| "optional_member (JNum q) k = inherited (number_prototype_names @ object_prototype_names) k"
| "optional_member (JStr s) k =
     (if k = js ''length'' then Value (JNum (of_nat (length s)))
      else (case array_index k of
              Some i \<Rightarrow>
                if i < length s then Value (JStr [s ! i])
                else inherited (string_prototype_names @ object_prototype_names) k
            | None \<Rightarrow> inherited (string_prototype_names @ object_prototype_names) k))"
| "optional_member (JArr xs) k =
     (if k = js ''length'' then Value (JNum (of_nat (length xs)))
      else (case array_index k of
              Some i \<Rightarrow>
                if i < length xs then Value (xs ! i)
                else inherited (array_prototype_names @ object_prototype_names) k
            | None \<Rightarrow> inherited (array_prototype_names @ object_prototype_names) k))"
| "optional_member (JObj kvs) k =
     (case map_of kvs k of
        Some v \<Rightarrow> Value v
      | None \<Rightarrow> inherited object_prototype_names k)"

text \<open>
  The property names that the source writes out, which it reads with \<open>get_prop\<close>.
\<close>

definition literal_names :: "jsstring list" where
  "literal_names =
     map js [''findings'', ''data'', ''error'', ''type'', ''parts'', ''info'', ''id'',
       ''sessionID'', ''properties'', ''slug'', ''text'', ''state'', ''status'', ''output'']"

text \<open>\<open>!status\<close> is the negation of \<open>member_truthy\<close>, and \<open>status_type\<close> is \<open>status.type\<close>.\<close>

fun member_truthy :: "member \<Rightarrow> bool" where
  "member_truthy (Value v) = truthy v"
| "member_truthy Builtin = True"

fun status_type :: "member \<Rightarrow> jsval" where
  "status_type (Value v) = get_prop v (js ''type'')"
| "status_type Builtin = JUndefined"

definition session_timeout :: "'w host \<Rightarrow> int option \<Rightarrow> int" where
  "session_timeout h timeoutOverrideMs =
     (case timeoutOverrideMs of
        Some t \<Rightarrow> t
      | None \<Rightarrow> env_number h (js ''ORCHESTRATOR_SESSION_TIMEOUT_MS'') DEFAULT_SESSION_TIMEOUT_MS)"

definition poll_interval :: "'w host \<Rightarrow> int" where
  "poll_interval h =
     env_number h (js ''ORCHESTRATOR_STATUS_POLL_INTERVAL_MS'') DEFAULT_STATUS_POLL_INTERVAL_MS"

text \<open>
  The \<open>while\<close> loop of \<open>waitForSessionIdle\<close>, entered with the time \<open>start\<close> read before it.
  Nothing bounds the number of polls when the clock does not advance, so the result is
  an option.
\<close>

partial_function (option) wait_loop ::
  "'w host \<Rightarrow> nat \<Rightarrow> jsstring \<Rightarrow> jsstring \<Rightarrow> int \<Rightarrow> int \<Rightarrow> int \<Rightarrow> 'w state \<Rightarrow>
     ((error + unit) \<times> 'w state) option" where
  "wait_loop h client sessionID rootDir start timeoutMs pollIntervalMs s =
     (case date_now h s of
        (now, s1) \<Rightarrow>
          if now - start < timeoutMs then
            (case call_unwrap h client (SessionStatus rootDir) (js ''session.status'') s1 of
               None \<Rightarrow> None
             | Some (Inl e, s2) \<Rightarrow> Some (Inl e, s2)
             | Some (Inr statusMap, s2) \<Rightarrow>
                 (let status = optional_member statusMap sessionID
                  in if \<not> member_truthy status then
                       Some (Inl (SessionMissing sessionID
                                    (if truthy statusMap then object_keys statusMap else [])), s2)
                     else if status_type status = JStr (js ''idle'') then
                       Some (Inr (), s2)
                     else wait_loop h client sessionID rootDir start timeoutMs pollIntervalMs
                            (delay h pollIntervalMs s2)))
          else Some (Inl (Timeout sessionID), s1))"

declare wait_loop.simps [code]

definition waitForSessionIdle ::
  "'w host \<Rightarrow> nat \<Rightarrow> jsstring \<Rightarrow> jsstring \<Rightarrow> int option \<Rightarrow> (unit, 'w) prog" where
  "waitForSessionIdle h client sessionID rootDir timeoutOverrideMs =
     (\<lambda>s. case date_now h s of
             (start, s1) \<Rightarrow>
               wait_loop h client sessionID rootDir start
                 (session_timeout h timeoutOverrideMs) (poll_interval h) s1)"



text \<open>
  A fake provider for examples. Its world is a clock and a script of replies: every
  method call takes the next reply (an empty script replies \<open>undefined\<close>), sleeping
  advances the clock, closing a server does not throw, and the instances created are
  numbered from 1, the client and the server of an instance bearing its number. No
  environment variable is set. Its rounding of large integers is \<open>fake_round\<close>: a
  magnitude of \<open>2 ^ 1024\<close> or more is Infinity, as for every double; a smaller one is
  kept as it is, which is right for the magnitudes that are doubles (the examples use no
  other).
\<close>

definition fake_round :: "nat \<Rightarrow> nat option" where
  "fake_round m = (if m < 2 ^ 1024 then Some m else None)"

record fake_world =
  clock :: int
  replies :: "callresult list"
  instances :: nat

definition fake_host :: "fake_world host" where
  "fake_host =
     \<lparr>h_createOpencode = (\<lambda>model w. (Inr (Suc (instances w), Suc (instances w)),
                                       w\<lparr>instances := Suc (instances w)\<rparr>)),
      h_call = (\<lambda>client req w. case replies w of
                                  [] \<Rightarrow> (Sync JUndefined, w)
                                | r # rs \<Rightarrow> (r, w\<lparr>replies := rs\<rparr>)),
      h_now = (\<lambda>w. (clock w, w)),
      h_sleep = (\<lambda>ms w. w\<lparr>clock := clock w + ms\<rparr>),
      h_close = (\<lambda>server w. (None, w)),
      h_env = (\<lambda>name. None),
      h_round = fake_round,
      h_stringify = (\<lambda>v. [])\<rparr>"

definition fake_start :: "callresult list \<Rightarrow> fake_world state" where
  "fake_start rs = \<lparr>world = \<lparr>clock = 0, replies = rs, instances = 0\<rparr>, trace = []\<rparr>"

section \<open>The review command and the review loop\<close>

definition is_string :: "jsval \<Rightarrow> bool" where
  "is_string v = (case v of JStr s \<Rightarrow> True | _ \<Rightarrow> False)"

definition string_of :: "jsval \<Rightarrow> jsstring" where
  "string_of v = (case v of JStr s \<Rightarrow> s | _ \<Rightarrow> [])"

text \<open>\<open>a ?? b\<close>: \<open>b\<close> when \<open>a\<close> is \<open>undefined\<close> or \<open>null\<close>.\<close>

definition nullish_or :: "jsval \<Rightarrow> jsval \<Rightarrow> jsval" where
  "nullish_or a b = (if a = JUndefined \<or> a = JNull then b else a)"

text \<open>\<open>chunks.join(sep)\<close>.\<close>

fun join :: "jsstring \<Rightarrow> jsstring list \<Rightarrow> jsstring" where
  "join sep [] = []"
| "join sep [x] = x"
| "join sep (x # y # ys) = x @ sep @ join sep (y # ys)"

definition extractSessionID :: "jsval \<Rightarrow> jsstring \<Rightarrow> error + jsstring" where
  "extractSessionID session ctx =
     (if \<not> truthy session \<or> \<not> typeof_object session then Inl (NoSessionObject ctx)
      else
        (let info = get_prop session (js ''info'');
             properties = get_prop session (js ''properties'');
             pinfo = get_prop properties (js ''info'');
             candidates =
               [get_prop session (js ''id''), get_prop session (js ''sessionID''),
                get_prop info (js ''id''), get_prop info (js ''sessionID''),
                get_prop properties (js ''id''), get_prop properties (js ''sessionID''),
                get_prop pinfo (js ''id''), get_prop pinfo (js ''sessionID''),
                get_prop session (js ''slug'')]
         in case filter (\<lambda>c. is_string c \<and> trim (string_of c) \<noteq> []) candidates of
              c # cs \<Rightarrow> Inr (string_of c)
            | [] \<Rightarrow> Inl (SessionWithoutId ctx session)))"

text \<open>What one part of a response contributes to the output, if anything.\<close>

definition part_chunk :: "jsval \<Rightarrow> jsstring option" where
  "part_chunk part =
     (if \<not> truthy part \<or> \<not> typeof_object part then None
      else if get_prop part (js ''type'') = JStr (js ''text'') \<and> is_string (get_prop part (js ''text''))
      then Some (string_of (get_prop part (js ''text'')))
      else if get_prop part (js ''type'') = JStr (js ''tool'') \<and>
              truthy (get_prop part (js ''state'')) \<and> typeof_object (get_prop part (js ''state''))
      then (let st = get_prop part (js ''state'')
            in if get_prop st (js ''status'') = JStr (js ''completed'') \<and>
                  is_string (get_prop st (js ''output''))
               then Some (string_of (get_prop st (js ''output'')))
               else if get_prop st (js ''status'') = JStr (js ''error'') \<and>
                       is_string (get_prop st (js ''error''))
               then Some (string_of (get_prop st (js ''error'')))
               else None)
      else None)"

definition collectCommandOutput :: "jsval \<Rightarrow> jsstring" where
  "collectCommandOutput parts =
     (case parts of
        JArr ps \<Rightarrow> join [10] (List.map_filter part_chunk ps)
      | _ \<Rightarrow> [])"

definition disposeInstance :: "'w host \<Rightarrow> nat \<Rightarrow> nat \<Rightarrow> jsstring \<Rightarrow> (unit, 'w) prog" where
  "disposeInstance h client server rootDir =
     bindP
       (catchP
          (bindP (call_unwrap h client (InstanceDispose rootDir) (js ''instance.dispose''))
             (\<lambda>r. returnP ()))
          (\<lambda>e. logStep (DisposeFailed e)))
       (\<lambda>u. server_close h server)"

text \<open>The \<open>try\<close> block of \<open>runReviewCommand\<close>.\<close>

definition review_try ::
  "'w host \<Rightarrow> jsstring \<Rightarrow> nat \<Rightarrow> jsstring \<Rightarrow> jsstring \<Rightarrow> int \<Rightarrow> (jsval, 'w) prog" where
  "review_try h rootDir client commandName commandArguments timeoutMs =
     bindP (call_unwrap h client (SessionCreate rootDir (js ''Review'')) (js ''session.create''))
       (\<lambda>session.
     bindP (liftE (extractSessionID session (js ''session.create (review instance)'')))
       (\<lambda>sessionID.
     bindP (call_unwrap h client
              (SessionCommand sessionID rootDir commandName commandArguments
                 DEFAULT_AGENT DEFAULT_MODEL)
              (js ''session.command''))
       (\<lambda>commandResult.
     bindP (waitForSessionIdle h client sessionID rootDir (Some timeoutMs))
       (\<lambda>u.
     bindP
       (let parts = nullish_or (get_prop commandResult (js ''parts'')) (JArr []);
            messageID = get_prop (get_prop commandResult (js ''info'')) (js ''id'')
        in if truthy messageID then
             bindP (call_unwrap h client (SessionMessage sessionID messageID rootDir)
                      (js ''session.message''))
               (\<lambda>message. returnP (nullish_or (get_prop message (js ''parts'')) parts))
           else returnP parts)
       (\<lambda>parts.
          (let output = collectCommandOutput parts
           in if trim output = [] then throwP EmptyOutput
              else (\<lambda>s. map_option (\<lambda>r. (r, s)) (extractReviewJson output))))))))"

definition review_command_name :: "'w host \<Rightarrow> jsstring" where
  "review_command_name h =
     env_or h (js ''ORCHESTRATOR_REVIEW_COMMAND'') DEFAULT_REVIEW_COMMAND_NAME"

definition review_command_arguments :: "'w host \<Rightarrow> jsstring" where
  "review_command_arguments h =
     env_or h (js ''ORCHESTRATOR_REVIEW_ARGUMENTS'') DEFAULT_REVIEW_COMMAND_ARGUMENTS"

definition review_timeout :: "'w host \<Rightarrow> int" where
  "review_timeout h =
     env_number h (js ''ORCHESTRATOR_REVIEW_TIMEOUT_MS'') DEFAULT_REVIEW_TIMEOUT_MS"

definition runReviewCommand :: "'w host \<Rightarrow> jsstring \<Rightarrow> (jsval, 'w) prog" where
  "runReviewCommand h rootDir =
     bindP (createOpencode h DEFAULT_MODEL)
       (\<lambda>(client, server).
          finallyP
            (review_try h rootDir client (review_command_name h) (review_command_arguments h)
               (review_timeout h))
            (disposeInstance h client server rootDir))"







definition max_review_iterations :: "'w host \<Rightarrow> int" where
  "max_review_iterations h =
     env_number h (js ''ORCHESTRATOR_MAX_REVIEW_ITERATIONS'') DEFAULT_MAX_REVIEW_ITERATIONS"


subsection \<open>Counting what a run did\<close>

definition cnt :: "(event \<Rightarrow> bool) \<Rightarrow> event list \<Rightarrow> nat" where
  "cnt q tr = length (filter q tr)"






subsection \<open>Scripts for the fake provider\<close>

text \<open>
  The replies to one run of the review command whose session is \<open>r\<close> and whose only
  output is the text \<open>out\<close> (session created, command answered, session idle, instance
  disposed), and the replies to one fix request to the work session \<open>w\<close> (prompt
  accepted, session idle).
\<close>

definition review_replies :: "jsstring \<Rightarrow> callresult list" where
  "review_replies out =
     [Sync (JObj [(js ''id'', JStr (js ''r''))]),
      Sync (JObj [(js ''parts'', JArr [JObj [(js ''type'', JStr (js ''text'')), (js ''text'', JStr out)]])]),
      Sync (JObj [(js ''r'', JObj [(js ''type'', JStr (js ''idle''))])]),
      Sync JUndefined]"


definition fake_state :: "int \<Rightarrow> callresult list \<Rightarrow> nat \<Rightarrow> event list \<Rightarrow> fake_world state" where
  "fake_state c rs n tr = \<lparr>world = \<lparr>clock = c, replies = rs, instances = n\<rparr>, trace = tr\<rparr>"

section \<open>Properties of the pure helpers\<close>

lemma get_prop_absent: "\<not> has_prop k v \<Longrightarrow> get_prop v k = JUndefined"
  by (cases v) (auto simp: map_of_eq_None_iff [symmetric])

text \<open>
  Claim C6. \<open>isFindingsEmpty\<close> throws for every value that is not an object (neither an
  array nor a plain object: \<open>undefined\<close>, \<open>null\<close>, booleans, numbers and strings),
  throws for every object whose \<open>findings\<close> property is not an array, in particular when
  the property is absent, and otherwise returns whether the \<open>findings\<close> array has zero
  elements.
\<close>

theorem isFindingsEmpty_spec:
  "((\<forall>xs. v \<noteq> JArr xs) \<and> (\<forall>kvs. v \<noteq> JObj kvs) \<longrightarrow> isFindingsEmpty v = Inl NotAnObject) \<and>
   (((\<exists>xs. v = JArr xs) \<or> (\<exists>kvs. v = JObj kvs)) \<and> \<not> isArray (get_prop v (js ''findings''))
      \<longrightarrow> isFindingsEmpty v = Inl MissingFindingsArray) \<and>
   (((\<exists>xs. v = JArr xs) \<or> (\<exists>kvs. v = JObj kvs)) \<and> \<not> has_prop (js ''findings'') v
      \<longrightarrow> isFindingsEmpty v = Inl MissingFindingsArray) \<and>
   (\<forall>kvs findings. v = JObj kvs \<and> get_prop v (js ''findings'') = JArr findings
      \<longrightarrow> isFindingsEmpty v = Inr (findings = []))"
proof (cases v)
  case (JObj kvs)
  show ?thesis
  proof (cases "has_prop (js ''findings'') v")
    case True
    then show ?thesis using JObj
      by (auto simp: isFindingsEmpty_def split: jsval.splits)
  next
    case False
    then show ?thesis using JObj get_prop_absent [OF False]
      by (simp add: isFindingsEmpty_def)
  qed
qed (simp_all add: isFindingsEmpty_def)

theorem isFindingsEmpty_spec_witness:
  "isFindingsEmpty (JStr (js ''clean'')) = Inl NotAnObject \<and>
   isFindingsEmpty (JObj [(js ''findings'', JNull)]) = Inl MissingFindingsArray \<and>
   isFindingsEmpty (JObj [(js ''issues'', JArr [])]) = Inl MissingFindingsArray \<and>
   isFindingsEmpty (JObj [(js ''findings'', JArr [])]) = Inr True \<and>
   isFindingsEmpty (JObj [(js ''findings'', JArr [JNull])]) = Inr False"
  using isFindingsEmpty_spec [of "JStr (js ''clean'')"]
        isFindingsEmpty_spec [of "JObj [(js ''findings'', JNull)]"]
        isFindingsEmpty_spec [of "JObj [(js ''issues'', JArr [])]"]
        isFindingsEmpty_spec [of "JObj [(js ''findings'', JArr [])]"]
        isFindingsEmpty_spec [of "JObj [(js ''findings'', JArr [JNull])]"]
  by (simp add: js_def)

lemma indexOf_None_iff: "indexOf c s = None \<longleftrightarrow> c \<notin> set s"
  by (induction s) auto

lemma indexOf_Some: "indexOf c s = Some i \<Longrightarrow> i < length s \<and> s ! i = c \<and> c \<notin> set (take i s)"
  by (induction s arbitrary: i) (auto split: if_splits)

lemma indexOf_append: "c \<notin> set a \<Longrightarrow> indexOf c (a @ c # b) = Some (length a)"
  by (induction a) auto

lemma dropWhile_all_iff: "(\<forall>x\<in>set (dropWhile P s). P x) \<longleftrightarrow> (\<forall>x\<in>set s. P x)"
proof
  assume "\<forall>x\<in>set s. P x"
  then show "\<forall>x\<in>set (dropWhile P s). P x" by (auto dest: set_dropWhileD)
next
  assume h: "\<forall>x\<in>set (dropWhile P s). P x"
  show "\<forall>x\<in>set s. P x"
  proof (rule ccontr)
    assume "\<not> (\<forall>x\<in>set s. P x)"
    then have ne: "dropWhile P s \<noteq> []" by (simp add: dropWhile_eq_Nil_conv)
    then have "\<not> P (hd (dropWhile P s))" by (rule hd_dropWhile)
    moreover have "hd (dropWhile P s) \<in> set (dropWhile P s)" using ne by simp
    ultimately show False using h by blast
  qed
qed

lemma trim_empty_iff: "trim s = [] \<longleftrightarrow> list_all is_js_space s"
  by (simp add: trim_def list_all_iff dropWhile_all_iff)

text \<open>
  Claim C7, as amended. \<open>parseModelSpec\<close> fails for every string without a \<open>/\<close>. For a
  string with one it splits at the first \<open>/\<close>, removes the white space around each
  half, fails when a half is empty or all white space, and otherwise returns the pair of
  the trimmed halves.
\<close>

theorem parseModelSpec_trimmed:
  "(47 \<notin> set spec \<longrightarrow> parseModelSpec spec = Inl (InvalidModelSpec spec)) \<and>
   (47 \<notin> set a \<longrightarrow>
      parseModelSpec (a @ 47 # b) =
        (if list_all is_js_space a \<or> list_all is_js_space b
         then Inl (InvalidModelSpec (a @ 47 # b))
         else Inr \<lparr>providerID = trim a, modelID = trim b\<rparr>))"
  by (simp add: parseModelSpec_def indexOf_None_iff [symmetric] indexOf_append
      trim_empty_iff)

theorem parseModelSpec_trimmed_witness:
  "parseModelSpec (js ''provider/model-id'') =
     Inr \<lparr>providerID = js ''provider'', modelID = js ''model-id''\<rparr> \<and>
   parseModelSpec (js ''gpt-5'') = Inl (InvalidModelSpec (js ''gpt-5'')) \<and>
   parseModelSpec (js ''/m'') = Inl (InvalidModelSpec (js ''/m'')) \<and>
   parseModelSpec (js ''p/'') = Inl (InvalidModelSpec (js ''p/'')) \<and>
   parseModelSpec (js ''a/b/c'') = Inr \<lparr>providerID = js ''a'', modelID = js ''b/c''\<rparr>"
  using parseModelSpec_trimmed [of "js ''gpt-5''" "js ''provider''" "js ''model-id''"]
    parseModelSpec_trimmed [of "[]" "[]" "js ''m''"]
    parseModelSpec_trimmed [of "[]" "js ''p''" "[]"]
    parseModelSpec_trimmed [of "[]" "js ''a''" "js ''b/c''"]
  by (simp add: js_def trim_def is_js_space_def)

text \<open>
  The claim as stated, that the result is the pair of the two halves whenever both are
  non-empty, fails: the halves \<open>"a "\<close> and \<open>"b"\<close> give provider \<open>"a"\<close>, and the
  non-empty halves \<open>" "\<close> and \<open>"b"\<close> are rejected.
\<close>

theorem parseModelSpec_halves_counterexample:
  "parseModelSpec (js ''a /b'') = Inr \<lparr>providerID = js ''a'', modelID = js ''b''\<rparr> \<and>
   parseModelSpec (js ''a /b'') \<noteq> Inr \<lparr>providerID = js ''a '', modelID = js ''b''\<rparr> \<and>
   parseModelSpec (js '' /b'') = Inl (InvalidModelSpec (js '' /b''))"
  by (simp add: parseModelSpec_def js_def trim_def is_js_space_def)

text \<open>
  The claim as stated, that a result carrying an error payload is never returned as
  data, fails for a result that has an \<open>error\<close> field and no \<open>data\<close> key: \<open>unwrap\<close>
  returns it unchanged.
\<close>

theorem unwrap_error_without_data_counterexample:
  "truthy (get_prop (JObj [(js ''error'', JStr (js ''boom''))]) (js ''error'')) \<and>
   unwrap (JObj [(js ''error'', JStr (js ''boom''))]) (js ''session.create'')
     = Inr (JObj [(js ''error'', JStr (js ''boom''))])"
  by (simp add: unwrap_def js_def)

text \<open>
  Claim C8, as amended. For a result with a \<open>data\<close> key, \<open>unwrap\<close> throws
  \<open>ProviderError\<close>, carrying the call's label and the error payload, when the \<open>error\<close>
  field is truthy, and returns the \<open>data\<close> field otherwise. A result without a \<open>data\<close>
  key is returned as it is.
\<close>

theorem unwrap_envelope:
  "(has_prop (js ''data'') result \<and> truthy (get_prop result (js ''error'')) \<longrightarrow>
      unwrap result label = Inl (ProviderError label (get_prop result (js ''error'')))) \<and>
   (has_prop (js ''data'') result \<and> \<not> truthy (get_prop result (js ''error'')) \<longrightarrow>
      unwrap result label = Inr (get_prop result (js ''data''))) \<and>
   (\<not> has_prop (js ''data'') result \<longrightarrow> unwrap result label = Inr result)"
  by (cases result) (simp_all add: unwrap_def)

theorem unwrap_envelope_witness:
  "unwrap (JObj [(js ''data'', JNull), (js ''error'', JStr (js ''boom''))]) (js ''session.create'')
     = Inl (ProviderError (js ''session.create'') (JStr (js ''boom''))) \<and>
   unwrap (JObj [(js ''data'', JStr (js ''ses_1''))]) (js ''session.create'')
     = Inr (JStr (js ''ses_1'')) \<and>
   unwrap (JStr (js ''plain'')) (js ''session.create'') = Inr (JStr (js ''plain''))"
  using unwrap_envelope [of "JObj [(js ''data'', JNull), (js ''error'', JStr (js ''boom''))]"
      "js ''session.create''"]
    unwrap_envelope [of "JObj [(js ''data'', JStr (js ''ses_1''))]" "js ''session.create''"]
    unwrap_envelope [of "JStr (js ''plain'')" "js ''session.create''"]
  by (simp add: js_def)

lemma parseInt10_Nil: "parseInt10 [] = None"
  by (simp add: parseInt10_def trim_start_def)

text \<open>
  Claim C10. \<open>parseNumber\<close> returns the fallback when the variable is not set, when it is
  empty, when \<open>parseInt\<close> reads no integer from it, when the integer read is zero or
  negative and when it is too large to be a finite number; it returns the integer read
  when that is finite and greater than zero. So the result is the fallback or positive.
  The review timeout, the session timeout, the poll interval and the iteration bound are
  read this way, with the fallbacks 3600000, 7200000, 2000 and 20.
\<close>

theorem parseNumber_fallback_unless_positive:
  "parseNumber rnd None fb = fb \<and>
   parseNumber rnd (Some []) fb = fb \<and>
   (parseInt10 s = None \<longrightarrow> parseNumber rnd (Some s) fb = fb) \<and>
   (parseInt10 s = Some (negative, m) \<and> (negative \<or> m = 0) \<longrightarrow> parseNumber rnd (Some s) fb = fb) \<and>
   (parseInt10 s = Some (negative, m) \<and> number_value rnd m = None \<longrightarrow>
      parseNumber rnd (Some s) fb = fb) \<and>
   (parseInt10 s = Some (False, m) \<and> number_value rnd m = Some d \<and> 0 < d \<longrightarrow>
      parseNumber rnd (Some s) fb = int d) \<and>
   (parseNumber rnd v fb = fb \<or> 0 < parseNumber rnd v fb) \<and>
   review_timeout h =
     parseNumber (h_round h) (h_env h (js ''ORCHESTRATOR_REVIEW_TIMEOUT_MS'')) 3600000 \<and>
   session_timeout h None =
     parseNumber (h_round h) (h_env h (js ''ORCHESTRATOR_SESSION_TIMEOUT_MS'')) 7200000 \<and>
   poll_interval h =
     parseNumber (h_round h) (h_env h (js ''ORCHESTRATOR_STATUS_POLL_INTERVAL_MS'')) 2000 \<and>
   max_review_iterations h =
     parseNumber (h_round h) (h_env h (js ''ORCHESTRATOR_MAX_REVIEW_ITERATIONS'')) 20"
proof -
  have a: "parseInt10 s = None \<longrightarrow> parseNumber rnd (Some s) fb = fb"
    by (simp add: parseNumber_def)
  have b: "parseInt10 s = Some (negative, m) \<and> (negative \<or> m = 0) \<longrightarrow>
      parseNumber rnd (Some s) fb = fb"
    by (auto simp: parseNumber_def number_value_def Let_def split: option.splits)
  have c: "parseInt10 s = Some (negative, m) \<and> number_value rnd m = None \<longrightarrow>
      parseNumber rnd (Some s) fb = fb"
    by (simp add: parseNumber_def)
  have d: "parseInt10 s = Some (False, m) \<and> number_value rnd m = Some d \<and> 0 < d \<longrightarrow>
      parseNumber rnd (Some s) fb = int d"
    by (auto simp: parseNumber_def parseInt10_Nil)
  have e: "parseNumber rnd v fb = fb \<or> 0 < parseNumber rnd v fb"
    by (auto simp: parseNumber_def Let_def split: option.splits)
  have f: "review_timeout h =
     parseNumber (h_round h) (h_env h (js ''ORCHESTRATOR_REVIEW_TIMEOUT_MS'')) 3600000"
    "session_timeout h None =
     parseNumber (h_round h) (h_env h (js ''ORCHESTRATOR_SESSION_TIMEOUT_MS'')) 7200000"
    "poll_interval h =
     parseNumber (h_round h) (h_env h (js ''ORCHESTRATOR_STATUS_POLL_INTERVAL_MS'')) 2000"
    "max_review_iterations h =
     parseNumber (h_round h) (h_env h (js ''ORCHESTRATOR_MAX_REVIEW_ITERATIONS'')) 20"
    by (simp_all add: review_timeout_def session_timeout_def poll_interval_def
        max_review_iterations_def env_number_def DEFAULT_REVIEW_TIMEOUT_MS_def
        DEFAULT_SESSION_TIMEOUT_MS_def DEFAULT_STATUS_POLL_INTERVAL_MS_def
        DEFAULT_MAX_REVIEW_ITERATIONS_def)
  have g: "parseNumber rnd None fb = fb" "parseNumber rnd (Some []) fb = fb"
    by (simp_all add: parseNumber_def)
  show ?thesis using a b c d e f g by blast
qed

theorem parseNumber_fallback_unless_positive_witness:
  "parseNumber fake_round (Some (js ''abc'')) 2000 = 2000 \<and>
   parseNumber fake_round (Some (js ''0'')) 2000 = 2000 \<and>
   parseNumber fake_round (Some (js ''-5'')) 2000 = 2000 \<and>
   parseNumber fake_round
     (Some (js ''1000000000000000000000000000000000000000000000000000000000000000000000000000000000000000000000000000000000000000000000000000000000000000000000000000000000000000000000000000000000000000000000000000000000000000000000000000000000000000000000000000000000000000000000000000000000000000000000000000000000000000000000'')) 2000 = 2000 \<and>
   parseNumber fake_round (Some (js ''500'')) 2000 = 500"
proof -
  have 1: "parseInt10 (js ''abc'') = None"
    by (simp add: parseInt10_def trim_start_def js_def is_js_space_def is_digit_def)
  have 2: "parseInt10 (js ''0'') = Some (False, 0)"
    by (simp add: parseInt10_def trim_start_def js_def is_js_space_def is_digit_def
        digits_value_def)
  have 3: "parseInt10 (js ''-5'') = Some (True, 5)"
    by (simp add: parseInt10_def trim_start_def js_def is_js_space_def is_digit_def
        digits_value_def)
  have 4: "parseInt10
      (js ''1000000000000000000000000000000000000000000000000000000000000000000000000000000000000000000000000000000000000000000000000000000000000000000000000000000000000000000000000000000000000000000000000000000000000000000000000000000000000000000000000000000000000000000000000000000000000000000000000000000000000000000000'') = Some (False, 10 ^ 309)"
    by (simp add: parseInt10_def trim_start_def js_def is_js_space_def is_digit_def
        digits_value_def)
  have h4: "number_value fake_round (10 ^ 309) = None"
    by (simp add: number_value_def fake_round_def)
  have 5: "parseInt10 (js ''500'') = Some (False, 500)"
    by (simp add: parseInt10_def trim_start_def js_def is_js_space_def is_digit_def
        digits_value_def)
  have h5: "number_value fake_round 500 = Some 500"
    by (simp add: number_value_def)
  show ?thesis
    using parseNumber_fallback_unless_positive [of fake_round 2000 "js ''abc''" False 0 0 None fake_host]
      parseNumber_fallback_unless_positive [of fake_round 2000 "js ''0''" False 0 0 None fake_host]
      parseNumber_fallback_unless_positive [of fake_round 2000 "js ''-5''" True 5 0 None fake_host]
      parseNumber_fallback_unless_positive [of fake_round 2000
         "js ''1000000000000000000000000000000000000000000000000000000000000000000000000000000000000000000000000000000000000000000000000000000000000000000000000000000000000000000000000000000000000000000000000000000000000000000000000000000000000000000000000000000000000000000000000000000000000000000000000000000000000000000000''"
         False "10 ^ 309" 0 None fake_host]
      parseNumber_fallback_unless_positive [of fake_round 2000 "js ''500''" False 500 500 None fake_host]
      1 2 3 4 h4 5 h5
    by simp
qed
section \<open>Properties of hasUnfinishedTasks\<close>

lemma lastc_simps [simp]: "lastc prev [] = prev" "lastc prev (c # cs) = lastc (Some c) cs"
  by (simp_all add: lastc_def)

lemma matches_Many:
  "matches (Many P # ns) prev s \<longleftrightarrow>
     (\<exists>ws rest. s = ws @ rest \<and> list_all P ws \<and> matches ns (lastc prev ws) rest)"
proof (induction s arbitrary: prev)
  case Nil
  then show ?case by simp
next
  case (Cons c cs)
  show ?case
  proof
    assume "matches (Many P # ns) prev (c # cs)"
    then consider "P c" "matches (Many P # ns) (Some c) cs" | "matches ns prev (c # cs)"
      by auto
    then show "\<exists>ws rest. c # cs = ws @ rest \<and> list_all P ws \<and> matches ns (lastc prev ws) rest"
    proof cases
      case 1
      then obtain ws rest where "cs = ws @ rest" "list_all P ws" "matches ns (lastc (Some c) ws) rest"
        using Cons.IH by blast
      then have "c # cs = (c # ws) @ rest \<and> list_all P (c # ws) \<and> matches ns (lastc prev (c # ws)) rest"
        using 1 by simp
      then show ?thesis by blast
    next
      case 2
      then have "c # cs = [] @ (c # cs) \<and> list_all P [] \<and> matches ns (lastc prev []) (c # cs)"
        by simp
      then show ?thesis by blast
    qed
  next
    assume "\<exists>ws rest. c # cs = ws @ rest \<and> list_all P ws \<and> matches ns (lastc prev ws) rest"
    then obtain ws rest where h: "c # cs = ws @ rest" "list_all P ws" "matches ns (lastc prev ws) rest"
      by blast
    show "matches (Many P # ns) prev (c # cs)"
    proof (cases ws)
      case Nil
      then have "matches ns prev (c # cs)" using h by simp
      then show ?thesis by simp
    next
      case (Cons w ws')
      then have "w = c" "cs = ws' @ rest" "P c" "list_all P ws'" "matches ns (lastc (Some c) ws') rest"
        using h by auto
      then have "matches (Many P # ns) (Some c) cs" using Cons.IH by blast
      then show ?thesis using \<open>P c\<close> by simp
    qed
  qed
qed

lemma matches_Many1:
  "matches (Many1 P # ns) prev s \<longleftrightarrow>
     (\<exists>ws rest. s = ws @ rest \<and> ws \<noteq> [] \<and> list_all P ws \<and> matches ns (lastc prev ws) rest)"
proof (cases s)
  case Nil
  then show ?thesis by simp
next
  case (Cons c cs)
  show ?thesis
  proof
    assume "matches (Many1 P # ns) prev s"
    then have "P c" and "matches (Many P # ns) (Some c) cs" using Cons by auto
    then obtain ws rest where "cs = ws @ rest" "list_all P ws" "matches ns (lastc (Some c) ws) rest"
      using matches_Many by blast
    then have "s = (c # ws) @ rest \<and> c # ws \<noteq> [] \<and> list_all P (c # ws) \<and>
       matches ns (lastc prev (c # ws)) rest"
      using Cons \<open>P c\<close> by simp
    then show "\<exists>ws rest. s = ws @ rest \<and> ws \<noteq> [] \<and> list_all P ws \<and> matches ns (lastc prev ws) rest"
      by blast
  next
    assume "\<exists>ws rest. s = ws @ rest \<and> ws \<noteq> [] \<and> list_all P ws \<and> matches ns (lastc prev ws) rest"
    then obtain ws rest where h: "s = ws @ rest" "ws \<noteq> []" "list_all P ws"
        "matches ns (lastc prev ws) rest" by blast
    then obtain w ws' where ws: "ws = w # ws'" by (cases ws) auto
    then have "w = c" "cs = ws' @ rest" "P c" "list_all P ws'" "matches ns (lastc (Some c) ws') rest"
      using h Cons by auto
    then have "matches (Many P # ns) (Some c) cs" using matches_Many by blast
    then show "matches (Many1 P # ns) prev s" using Cons \<open>P c\<close> by simp
  qed
qed

lemma matches_bracket:
  "matches [One (\<lambda>c. c = 91), One is_js_space, One (\<lambda>c. c = 93)] prev s \<longleftrightarrow>
     (\<exists>c rest. s = 91 # c # 93 # rest \<and> is_js_space c)"
proof (cases s)
  case Nil then show ?thesis by simp
next
  case (Cons a s1)
  show ?thesis
  proof (cases s1)
    case Nil then show ?thesis using Cons by simp
  next
    case (Cons b s2)
    show ?thesis by (cases s2) (auto simp: \<open>s = a # s1\<close> Cons)
  qed
qed

lemma matches_One:
  "matches (One P # ns) prev s \<longleftrightarrow> (\<exists>c cs. s = c # cs \<and> P c \<and> matches ns (Some c) cs)"
  by (cases s) auto

lemma regex_test_iff:
  "regex_test ns prev s \<longleftrightarrow> (\<exists>pre suf. s = pre @ suf \<and> matches ns (lastc prev pre) suf)"
proof (induction s arbitrary: prev)
  case Nil
  then show ?case by simp
next
  case (Cons c cs)
  show ?case
  proof
    assume "regex_test ns prev (c # cs)"
    then consider "matches ns prev (c # cs)" | "regex_test ns (Some c) cs" by auto
    then show "\<exists>pre suf. c # cs = pre @ suf \<and> matches ns (lastc prev pre) suf"
    proof cases
      case 1
      then have "c # cs = [] @ (c # cs) \<and> matches ns (lastc prev []) (c # cs)" by simp
      then show ?thesis by blast
    next
      case 2
      then obtain pre suf where "cs = pre @ suf" "matches ns (lastc (Some c) pre) suf"
        using Cons.IH by blast
      then have "c # cs = (c # pre) @ suf \<and> matches ns (lastc prev (c # pre)) suf" by simp
      then show ?thesis by blast
    qed
  next
    assume "\<exists>pre suf. c # cs = pre @ suf \<and> matches ns (lastc prev pre) suf"
    then obtain pre suf where h: "c # cs = pre @ suf" "matches ns (lastc prev pre) suf" by blast
    show "regex_test ns prev (c # cs)"
    proof (cases pre)
      case Nil
      then have "matches ns prev (c # cs)" using h by simp
      then show ?thesis by simp
    next
      case (Cons p pre')
      then have "cs = pre' @ suf" "matches ns (lastc (Some c) pre') suf" using h by auto
      then have "regex_test ns (Some c) cs" using Cons.IH by blast
      then show ?thesis by simp
    qed
  qed
qed


lemma matches_task:
  "matches (tl unchecked_pattern) prev s \<longleftrightarrow> task_prefix s"
proof
  assume "matches (tl unchecked_pattern) prev s"
  then obtain ws1 r1 where 1: "s = ws1 @ r1" "list_all is_js_space ws1"
      "matches [One is_bullet, Many1 is_js_space, One (\<lambda>c. c = 91), One is_js_space,
         One (\<lambda>c. c = 93)] (lastc prev ws1) r1"
    unfolding unchecked_pattern_def list.sel matches_Many by blast
  then obtain b r2 where 2: "r1 = b # r2" "is_bullet b"
      "matches [Many1 is_js_space, One (\<lambda>c. c = 91), One is_js_space, One (\<lambda>c. c = 93)]
         (Some b) r2"
    unfolding matches_One by blast
  then obtain ws2 r3 where 3: "r2 = ws2 @ r3" "ws2 \<noteq> []" "list_all is_js_space ws2"
      "matches [One (\<lambda>c. c = 91), One is_js_space, One (\<lambda>c. c = 93)] (lastc (Some b) ws2) r3"
    unfolding matches_Many1 by blast
  then obtain c rest where 4: "r3 = 91 # c # 93 # rest" "is_js_space c"
    unfolding matches_bracket by blast
  have "s = ws1 @ b # ws2 @ 91 # c # 93 # rest" using 1 2 3 4 by simp
  then show "task_prefix s" unfolding task_prefix_def using 1 2 3 4 by blast
next
  assume "task_prefix s"
  then obtain ws1 b ws2 c rest where h: "s = ws1 @ b # ws2 @ 91 # c # 93 # rest"
      "list_all is_js_space ws1" "is_bullet b" "ws2 \<noteq> []" "list_all is_js_space ws2"
      "is_js_space c"
    unfolding task_prefix_def by blast
  have 4: "matches [One (\<lambda>c. c = 91), One is_js_space, One (\<lambda>c. c = 93)] p (91 # c # 93 # rest)"
    for p using h by simp
  have 3: "matches [Many1 is_js_space, One (\<lambda>c. c = 91), One is_js_space, One (\<lambda>c. c = 93)]
         p (ws2 @ 91 # c # 93 # rest)" for p
    unfolding matches_Many1 using h 4 by blast
  have 2: "matches [One is_bullet, Many1 is_js_space, One (\<lambda>c. c = 91), One is_js_space,
         One (\<lambda>c. c = 93)] p (b # ws2 @ 91 # c # 93 # rest)" for p
    using h 3 by simp
  show "matches (tl unchecked_pattern) prev s"
    unfolding unchecked_pattern_def list.sel matches_Many using h 2 by blast
qed

lemma hasUnfinishedTasks_iff:
  "hasUnfinishedTasks content \<longleftrightarrow>
     (\<exists>pre ws1 b ws2 c rest.
        content = pre @ ws1 @ b # ws2 @ 91 # c # 93 # rest \<and>
        (pre = [] \<or> is_line_terminator (last pre)) \<and>
        list_all is_js_space ws1 \<and> is_bullet b \<and>
        ws2 \<noteq> [] \<and> list_all is_js_space ws2 \<and> is_js_space c)"
proof -
  have ls: "at_line_start (lastc None pre) \<longleftrightarrow> pre = [] \<or> is_line_terminator (last pre)" for pre
    by (simp add: at_line_start_def lastc_def)
  have m: "matches unchecked_pattern p s \<longleftrightarrow> at_line_start p \<and> task_prefix s" for p s
    using matches_task [of p s] by (simp add: unchecked_pattern_def)
  have "hasUnfinishedTasks content \<longleftrightarrow>
     (\<exists>pre suf. content = pre @ suf \<and> (pre = [] \<or> is_line_terminator (last pre)) \<and>
        task_prefix suf)"
    unfolding hasUnfinishedTasks_def regex_test_iff m ls by blast
  also have "\<dots> \<longleftrightarrow> (\<exists>pre ws1 b ws2 c rest.
        content = pre @ ws1 @ b # ws2 @ 91 # c # 93 # rest \<and>
        (pre = [] \<or> is_line_terminator (last pre)) \<and>
        list_all is_js_space ws1 \<and> is_bullet b \<and>
        ws2 \<noteq> [] \<and> list_all is_js_space ws2 \<and> is_js_space c)"
    unfolding task_prefix_def by blast
  finally show ?thesis .
qed

lemma hasUnfinishedTasks_examples:
  "hasUnfinishedTasks (js ''- [ ] task'') \<and>
   \<not> hasUnfinishedTasks (js ''- [x] task'') \<and>
   hasUnfinishedTasks (js ''  * [ ] nested'') \<and>
   \<not> hasUnfinishedTasks (js ''no tasks here'')"
  by (simp add: hasUnfinishedTasks_def unchecked_pattern_def js_def is_js_space_def
      is_bullet_def at_line_start_def is_line_terminator_def)

text \<open>
  Claim C3, as amended. \<open>hasUnfinishedTasks\<close> is true exactly when, at the start of the
  text or just after a line terminator, the text goes on with any white space, a bullet
  marker (\<open>-\<close>, \<open>*\<close> or \<open>+\<close>), at least one white-space character, \<open>[\<close>, exactly one
  white-space character and \<open>]\<close>. White space includes the line terminators, so the
  match may run over several lines. \<open>- [ ] task\<close> and \<open>  * [ ] nested\<close> give true,
  \<open>- [x] task\<close> and a text without bracket tasks give false.
\<close>

theorem hasUnfinishedTasks_amended:
  "(hasUnfinishedTasks content \<longleftrightarrow>
     (\<exists>pre ws1 b ws2 c rest.
        content = pre @ ws1 @ b # ws2 @ 91 # c # 93 # rest \<and>
        (pre = [] \<or> is_line_terminator (last pre)) \<and>
        list_all is_js_space ws1 \<and> is_bullet b \<and>
        ws2 \<noteq> [] \<and> list_all is_js_space ws2 \<and> is_js_space c)) \<and>
   hasUnfinishedTasks (js ''- [ ] task'') \<and>
   \<not> hasUnfinishedTasks (js ''- [x] task'') \<and>
   hasUnfinishedTasks (js ''  * [ ] nested'') \<and>
   \<not> hasUnfinishedTasks (js ''no tasks here'')"
  using hasUnfinishedTasks_iff [of content] hasUnfinishedTasks_examples by blast

theorem hasUnfinishedTasks_amended_witness:
  "hasUnfinishedTasks ([10, 32] @ 43 # [32, 9] @ 91 # 32 # 93 # js '' last task'')"
proof -
  have "\<exists>pre ws1 b ws2 c rest.
        [10, 32] @ 43 # [32, 9] @ 91 # 32 # 93 # js '' last task''
          = pre @ ws1 @ b # ws2 @ 91 # c # 93 # rest \<and>
        (pre = [] \<or> is_line_terminator (last pre)) \<and>
        list_all is_js_space ws1 \<and> is_bullet b \<and>
        ws2 \<noteq> [] \<and> list_all is_js_space ws2 \<and> is_js_space c"
    apply (rule exI [of _ "[10]"], rule exI [of _ "[32]"], rule exI [of _ 43])
    apply (rule exI [of _ "[32, 9]"], rule exI [of _ 32], rule exI [of _ "js '' last task''"])
    apply (simp add: is_js_space_def is_bullet_def is_line_terminator_def)
    done
  then show ?thesis
    using hasUnfinishedTasks_amended [of "[10, 32] @ 43 # [32, 9] @ 91 # 32 # 93 # js '' last task''"]
    by blast
qed

text \<open>
  The claim as stated, that the result is true only if some line is an unchecked task,
  fails: for the two lines \<open>-\<close> and \<open>[ ]\<close> the result is true, the white space after
  the bullet being the line break, and neither line is an unchecked task.
\<close>

theorem hasUnfinishedTasks_lines_counterexample:
  "hasUnfinishedTasks (js ''-'' @ [10] @ js ''[ ]'') \<and>
   lines_of (js ''-'' @ [10] @ js ''[ ]'') = [js ''-'', js ''[ ]''] \<and>
   \<not> line_is_unchecked (js ''-'') \<and> \<not> line_is_unchecked (js ''[ ]'')"
  by (simp add: hasUnfinishedTasks_def line_is_unchecked_def unchecked_pattern_def js_def
      is_js_space_def is_bullet_def at_line_start_def is_line_terminator_def)
section \<open>Properties of the JSON automaton\<close>

text \<open>
  The automaton follows the lexical skeleton, so a text that it accepts is balanced: the
  scan ends outside a string with no bracket open. This is what makes the backward scan
  of \<open>extractReviewJson\<close> safe: a proper suffix of a JSON object that starts at one of
  its inner \<open>{\<close> is never itself a JSON text.
\<close>

lemma complete_props:
  "complete v st = Some s' \<Longrightarrow>
     length (snd s') = length st \<and> lmode_of (fst s') = LOut \<and> wf_mode (fst s') \<and> nested s'"
  by (induction v st rule: complete.induct) (auto simp: nested_def)

lemma close_array_props:
  "close_array st = Some s' \<Longrightarrow>
     length st = Suc (length (snd s')) \<and> lmode_of (fst s') = LOut \<and> wf_mode (fst s') \<and> nested s'"
  by (induction st rule: close_array.induct) (auto dest: complete_props)

lemma close_object_props:
  "close_object st = Some s' \<Longrightarrow>
     length st = Suc (length (snd s')) \<and> lmode_of (fst s') = LOut \<and> wf_mode (fst s') \<and> nested s'"
  by (induction st rule: close_object.induct) (auto dest: complete_props)

lemma after_step_props:
  assumes "after_step s c = Some s'" "nested s"
  shows "lstep (skeleton s) c = skeleton s' \<and> wf_mode (fst s') \<and> nested s'"
proof (cases s)
  case (Pair m st)
  show ?thesis
  proof (cases m)
    case MAfter
    then show ?thesis using assms Pair
      by (auto simp: skeleton_def nested_def is_json_space_def split: if_splits list.splits frame.splits
          dest!: close_array_props close_object_props)
  next
    case (MDone v)
    then show ?thesis using assms Pair
      by (auto simp: skeleton_def nested_def is_json_space_def split: if_splits)
  qed (use assms Pair in auto)
qed

lemma value_step_props:
  assumes "value_step st c = Some s'" "\<not> is_json_space c"
  shows "lstep (LOut, int (length st)) c = skeleton s' \<and> wf_mode (fst s') \<and> (c = 123 \<longrightarrow> nested s')
     \<and> (st \<noteq> [] \<longrightarrow> nested s')"
  using assms
  by (auto simp: value_step_def skeleton_def nested_def js_def split: if_splits)


lemma num_step_plain:
  "num_step ns c = Some ns' \<Longrightarrow> c \<noteq> 34 \<and> c \<noteq> 92 \<and> c \<noteq> 123 \<and> c \<noteq> 91 \<and> c \<noteq> 125 \<and> c \<noteq> 93"
  by (cases ns) (auto simp: num_step_def is_digit_def split: if_splits)

lemma hex_value_plain: "hex_value c = Some h \<Longrightarrow> c \<noteq> 34 \<and> c \<noteq> 92"
  by (auto simp: hex_value_def split: if_splits)

lemma step_props:
  assumes "step s c = Some s'" "wf_mode (fst s)" "nested s"
  shows "lstep (skeleton s) c = skeleton s' \<and> wf_mode (fst s') \<and> nested s'"
proof (cases s)
  case (Pair m st)
  have ne: "st \<noteq> [] \<or> is_done m" using assms(3) Pair by (simp add: nested_def)
  show ?thesis
  proof (cases m)
    case MValue
    show ?thesis
    proof (cases "is_json_space c")
      case True
      then show ?thesis using assms Pair MValue
        by (auto simp: skeleton_def is_json_space_def)
    next
      case False
      then have "value_step st c = Some s'" using assms Pair MValue by simp
      from value_step_props [OF this False] show ?thesis
        using ne Pair MValue by (simp add: skeleton_def)
    qed
  next
    case MArrStart
    show ?thesis
    proof (cases "is_json_space c")
      case True
      then show ?thesis using assms Pair MArrStart
        by (auto simp: skeleton_def is_json_space_def)
    next
      case False
      show ?thesis
      proof (cases "c = 93")
        case True
        then have "close_array st = Some s'" using assms Pair MArrStart False by simp
        from close_array_props [OF this] show ?thesis
          using Pair MArrStart True by (simp add: skeleton_def)
      next
        case c: False
        then have "value_step st c = Some s'" using assms Pair MArrStart False by simp
        from value_step_props [OF this False] show ?thesis
          using ne Pair MArrStart by (simp add: skeleton_def)
      qed
    qed
  next
    case MObjStart
    show ?thesis
    proof (cases "c = 125")
      case True
      then have "close_object st = Some s'" using assms Pair MObjStart
        by (simp add: is_json_space_def)
      from close_object_props [OF this] show ?thesis
        using Pair MObjStart True by (simp add: skeleton_def)
    next
      case False
      then show ?thesis using assms Pair MObjStart
        by (auto simp: skeleton_def nested_def is_json_space_def split: if_splits)
    qed
  next
    case MObjKey
    then show ?thesis using assms Pair
      by (auto simp: skeleton_def nested_def is_json_space_def split: if_splits)
  next
    case (MColon k)
    then show ?thesis using assms Pair
      by (auto simp: skeleton_def nested_def is_json_space_def split: if_splits list.splits frame.splits)
  next
    case MAfter
    then have "after_step s c = Some s'" using assms Pair by simp
    from after_step_props [OF this assms(3)] show ?thesis .
  next
    case (MDone v)
    then have "after_step s c = Some s'" using assms Pair by simp
    from after_step_props [OF this assms(3)] show ?thesis .
  next
    case (MStr key acc)
    show ?thesis
    proof (cases "c = 34 \<and> \<not> key")
      case True
      then have "complete (JStr acc) st = Some s'" using assms Pair MStr by simp
      from complete_props [OF this] show ?thesis
        using Pair MStr True by (simp add: skeleton_def)
    next
      case False
      then show ?thesis using assms Pair MStr
        by (auto simp: skeleton_def nested_def split: if_splits)
    qed
  next
    case (MEsc key acc)
    then show ?thesis using assms Pair
      by (auto simp: skeleton_def nested_def split: if_splits option.splits)
  next
    case (MHex key acc n v)
    then show ?thesis using assms Pair
      by (auto simp: skeleton_def nested_def split: if_splits option.splits dest: hex_value_plain)
  next
    case (MNum ns lexeme)
    show ?thesis
    proof (cases "num_step ns c")
      case (Some ns')
      then show ?thesis using assms Pair MNum num_step_plain [OF Some]
        by (auto simp: skeleton_def nested_def)
    next
      case None
      then obtain s1 where 1: "complete (JNum (number_of_lexeme lexeme)) st = Some s1"
        and 2: "after_step s1 c = Some s'"
        using assms Pair MNum by (auto split: if_splits option.splits)
      from complete_props [OF 1] have 3: "skeleton s1 = skeleton s" "nested s1"
        using Pair MNum by (simp_all add: skeleton_def)
      from after_step_props [OF 2 3(2)] show ?thesis using 3 by simp
    qed
  next
    case (MLit rest v)
    show ?thesis
    proof (cases rest)
      case Nil
      then show ?thesis using assms Pair MLit by simp
    next
      case (Cons x xs)
      then have cx: "c = x" and plain: "97 \<le> c" "c \<le> 122" and wfx: "list_all (\<lambda>x. 97 \<le> x \<and> x \<le> 122) xs"
        using assms Pair MLit by (auto split: if_splits)
      show ?thesis
      proof (cases "xs = []")
        case True
        then have "complete v st = Some s'" using assms Pair MLit Cons cx by simp
        from complete_props [OF this] show ?thesis
          using Pair MLit plain by (simp add: skeleton_def)
      next
        case False
        then have "s' = (MLit xs v, st)" using assms Pair MLit Cons cx by simp
        then show ?thesis using Pair MLit plain wfx ne by (simp add: skeleton_def nested_def)
      qed
    qed
  qed
qed


lemma run_append:
  "run s (a @ b) = (case run s a of None \<Rightarrow> None | Some s1 \<Rightarrow> run s1 b)"
  by (induction a arbitrary: s) (auto split: option.splits)

lemma run_props:
  "run s cs = Some s' \<Longrightarrow> wf_mode (fst s) \<Longrightarrow> nested s \<Longrightarrow>
     lscan (skeleton s) cs = skeleton s' \<and> wf_mode (fst s') \<and> nested s'"
proof (induction cs arbitrary: s)
  case Nil
  then show ?case by (simp add: lscan_def)
next
  case (Cons c cs)
  then obtain s1 where 1: "step s c = Some s1" and 2: "run s1 cs = Some s'"
    by (auto split: option.splits)
  from step_props [OF 1 Cons.prems(2,3)] have 3: "lstep (skeleton s) c = skeleton s1"
    "wf_mode (fst s1)" "nested s1" by simp_all
  from Cons.IH [OF 2 3(2,3)] show ?case using 3(1) by (simp add: lscan_def)
qed

lemma lscan_Cons: "lscan s (c # cs) = lscan (lstep s c) cs"
  by (simp add: lscan_def)

lemma lstep_shift:
  "lstep (m, d) c = (fst (lstep (m, 0) c), d + snd (lstep (m, 0) c))"
  by (cases m) auto

lemma lscan_shift:
  "lscan (m, d) cs = (fst (lscan (m, 0) cs), d + snd (lscan (m, 0) cs))"
proof (induction cs arbitrary: m d)
  case Nil
  then show ?case by (simp add: lscan_def)
next
  case (Cons c cs)
  obtain m1 e where 1: "lstep (m, 0) c = (m1, e)" by (cases "lstep (m, 0) c")
  then have 2: "lstep (m, d) c = (m1, d + e)" using lstep_shift [of m d c] by simp
  show ?case
    using Cons.IH [of m1 "d + e"] Cons.IH [of m1 e] by (simp add: lscan_Cons 1 2)
qed

lemma opposite_step:
  "opposite m1 m2 \<Longrightarrow> opposite (fst (lstep (m1, d) c)) (fst (lstep (m2, e) c))"
  by (cases m1; cases m2) (auto simp: opposite_def)

lemma opposite_scan:
  "opposite m1 m2 \<Longrightarrow> opposite (fst (lscan (m1, d) cs)) (fst (lscan (m2, e) cs))"
proof (induction cs arbitrary: m1 m2 d e)
  case Nil
  then show ?case by (simp add: lscan_def)
next
  case (Cons c cs)
  obtain a x where 1: "lstep (m1, d) c = (a, x)" by (cases "lstep (m1, d) c")
  obtain b y where 2: "lstep (m2, e) c = (b, y)" by (cases "lstep (m2, e) c")
  have "opposite a b" using opposite_step [OF Cons.prems, of d c e] 1 2 by simp
  from Cons.IH [OF this] show ?case by (simp add: lscan_Cons 1 2)
qed

lemma finish_skeleton: "finish s = Some v \<Longrightarrow> skeleton s = (LOut, 0)"
  by (induction s rule: finish.induct) (auto simp: skeleton_def)

lemma parse_object_skeleton:
  assumes "run (MValue, []) (123 # cs) = Some s"
  shows "lscan (LOut, 0) (123 # cs) = skeleton s"
proof -
  have "run (MObjStart, [ObjF []]) cs = Some s"
    using assms by (simp add: is_json_space_def value_step_def)
  from run_props [OF this] show ?thesis
    by (simp add: nested_def skeleton_def lscan_Cons)
qed

lemma inner_brace_rejected:
  assumes "JSON_parse (a @ b) = Some v" "a \<noteq> []" "hd a = 123" "b \<noteq> []" "hd b = 123"
  shows "JSON_parse b = None"
proof (rule ccontr)
  assume "JSON_parse b \<noteq> None"
  then obtain sb w where rb: "run (MValue, []) b = Some sb" and fb: "finish sb = Some w"
    by (auto simp: JSON_parse_def split: option.splits)
  obtain b' where b: "b = 123 # b'" using assms(4,5) by (cases b) auto
  obtain a' where a: "a = 123 # a'" using assms(2,3) by (cases a) auto
  have skb: "lscan (LOut, 0) b = (LOut, 0)"
    using parse_object_skeleton [of b' sb] rb finish_skeleton [OF fb] b by simp
  obtain sf where rf: "run (MValue, []) (a @ b) = Some sf" and ff: "finish sf = Some v"
    using assms(1) by (auto simp: JSON_parse_def split: option.splits)
  have r1: "run (MObjStart, [ObjF []]) (a' @ b) = Some sf"
    using rf a by (simp add: is_json_space_def value_step_def)
  then obtain sa where ra: "run (MObjStart, [ObjF []]) a' = Some sa" and rab: "run sa b = Some sf"
    by (auto simp: run_append split: option.splits)
  from run_props [OF ra] have wa: "wf_mode (fst sa)" and na: "nested sa"
    by (simp_all add: nested_def)
  from run_props [OF rab wa na] have sk: "lscan (skeleton sa) b = (LOut, 0)"
    using finish_skeleton [OF ff] by simp
  obtain m st where sa: "sa = (m, st)" by (cases sa)
  let ?d = "int (length st)"
  have sk': "lscan (lmode_of m, ?d) b = (LOut, 0)" using sk sa by (simp add: skeleton_def)
  show False
  proof (cases "lmode_of m")
    case LOut
    have "lscan (LOut, ?d) b = (LOut, ?d + 0)"
      using lscan_shift [of LOut ?d b] skb by simp
    then have "st = []" using sk' LOut by simp
    then have "is_done m" using na sa by (simp add: nested_def)
    then obtain u where "m = MDone u" by (cases m) auto
    then have "step sa 123 = None" using sa by (simp add: is_json_space_def)
    then show False using rab b by simp
  next
    case LIn
    have "opposite (fst (lscan (LIn, ?d) b)) (fst (lscan (LOut, 0) b))"
      by (rule opposite_scan) (simp add: opposite_def)
    then show False using sk' LIn skb by (simp add: opposite_def)
  next
    case LEsc
    have "opposite (fst (lscan (LIn, ?d) b')) (fst (lscan (LOut, 1) b'))"
      by (rule opposite_scan) (simp add: opposite_def)
    then show False using sk' LEsc skb b by (simp add: opposite_def lscan_Cons)
  next
    case LBad
    then show False by (cases m) auto
  qed
qed
section \<open>Properties of extractReviewJson\<close>

lemma trim_stable:
  assumes "s \<noteq> []" "\<not> is_js_space (hd s)" "\<not> is_js_space (last s)"
  shows "trim s = s"
proof -
  have 1: "dropWhile is_js_space s = s" using assms by (cases s) auto
  have r: "rev s = last s # rev (butlast s)" using assms(1) by (cases s rule: rev_cases) auto
  have 2: "dropWhile is_js_space (rev s) = rev s" unfolding r using assms(3) by simp
  show ?thesis by (simp add: trim_def 1 2)
qed

lemma trim_ends:
  assumes "trim s \<noteq> []"
  shows "\<not> is_js_space (hd (trim s))" "\<not> is_js_space (last (trim s))"
proof -
  let ?a = "dropWhile is_js_space s"
  let ?b = "dropWhile is_js_space (rev ?a)"
  have b: "?b \<noteq> []" using assms by (simp add: trim_def)
  then have "\<not> is_js_space (hd ?b)" by (rule hd_dropWhile)
  then show "\<not> is_js_space (last (trim s))" using b by (simp add: trim_def last_rev)
  have a: "?a \<noteq> []"
  proof
    assume "?a = []"
    then have "?b = []" by (metis dropWhile.simps(1) rev.simps(1))
    then show False using b by blast
  qed
  then have na: "\<not> is_js_space (hd ?a)" by (rule hd_dropWhile)
  have "last (rev ?a) = hd ?a" using a by (simp add: last_rev)
  obtain pre where "rev ?a = pre @ ?b"
    by (metis takeWhile_dropWhile_id)
  then have "?a = rev ?b @ rev pre" by (metis rev_append rev_rev_ident)
  moreover have "rev ?b \<noteq> []" using b by simp
  moreover have "last ?b = hd ?a"
    using b \<open>rev ?a = pre @ ?b\<close> \<open>last (rev ?a) = hd ?a\<close> by (metis last_appendR)
  ultimately show "\<not> is_js_space (hd (trim s))" using na b by (simp add: trim_def hd_rev)
qed

lemma find_down_found:
  "j \<le> n \<Longrightarrow> j < length s \<Longrightarrow> s ! j = c \<Longrightarrow>
     \<exists>k. find_down c s n = int k \<and> j \<le> k \<and> k \<le> n \<and> k < length s \<and> s ! k = c"
proof (induction n)
  case 0
  then show ?case by (cases s) auto
next
  case (Suc n)
  show ?case
  proof (cases "Suc n < length s \<and> s ! Suc n = c")
    case True
    then show ?thesis using Suc.prems by (intro exI [of _ "Suc n"]) auto
  next
    case False
    then have "j \<le> n" using Suc.prems by (cases "j = Suc n") auto
    from Suc.IH [OF this Suc.prems(2,3)] show ?thesis using False by auto
  qed
qed

lemma find_down_cases:
  "(find_down c s n = - 1 \<and> (\<forall>j\<le>n. j < length s \<longrightarrow> s ! j \<noteq> c)) \<or>
   (\<exists>k. find_down c s n = int k \<and> k \<le> n \<and> k < length s \<and> s ! k = c)"
proof (induction n)
  case 0
  then show ?case by (cases s) auto
next
  case (Suc n)
  show ?case
  proof (cases "Suc n < length s \<and> s ! Suc n = c")
    case True
    then have "find_down c s (Suc n) = int (Suc n) \<and> Suc n \<le> Suc n \<and> Suc n < length s \<and>
      s ! Suc n = c" by simp
    then show ?thesis by blast
  next
    case False
    then have eq: "find_down c s (Suc n) = find_down c s n" by auto
    from Suc.IH show ?thesis
    proof
      assume "find_down c s n = - 1 \<and> (\<forall>j\<le>n. j < length s \<longrightarrow> s ! j \<noteq> c)"
      then show ?thesis using False eq by (auto simp: le_Suc_eq)
    next
      assume "\<exists>k. find_down c s n = int k \<and> k \<le> n \<and> k < length s \<and> s ! k = c"
      then obtain k where "find_down c s n = int k \<and> k \<le> n \<and> k < length s \<and> s ! k = c" by blast
      then have "find_down c s (Suc n) = int k \<and> k \<le> Suc n \<and> k < length s \<and> s ! k = c"
        using eq by simp
      then show ?thesis by blast
    qed
  qed
qed

lemma extract_loop_unfold:
  "extract_loop t (int i) =
     (if accepted (JSON_parse (trim (drop i t))) then Some (Inr (the (JSON_parse (trim (drop i t)))))
      else extract_loop t (lastIndexOf 123 t (Some (int i - 1))))"
  by (subst extract_loop.simps) (auto simp: accepted_def split: option.splits)

lemma lastIndexOf_before:
  assumes "0 < i" "i < length t"
  shows "lastIndexOf 123 t (Some (int i - 1)) = find_down 123 t (i - 1)"
proof -
  have "t \<noteq> []" using assms by auto
  moreover have "min (max (int i - 1) 0) (int (length t) - 1) = int (i - 1)"
    using assms by auto
  ultimately show ?thesis by (simp add: lastIndexOf_def Let_def)
qed

lemma extract_loop_scan:
  assumes acc: "accepted (JSON_parse (trim (drop k t)))"
    and rej: "\<And>j. k < j \<Longrightarrow> j < length t \<Longrightarrow> t ! j = 123 \<Longrightarrow> \<not> accepted (JSON_parse (trim (drop j t)))"
    and k: "k < length t" "t ! k = 123"
  shows "k \<le> i \<Longrightarrow> i < length t \<Longrightarrow> t ! i = 123 \<Longrightarrow>
     extract_loop t (int i) = Some (Inr (the (JSON_parse (trim (drop k t)))))"
proof (induction i rule: less_induct)
  case (less i)
  show ?case
  proof (cases "i = k")
    case True
    then show ?thesis using acc by (simp add: extract_loop_unfold)
  next
    case False
    then have ki: "k < i" using less.prems by simp
    have nacc: "\<not> accepted (JSON_parse (trim (drop i t)))"
      using rej [OF ki less.prems(2,3)] .
    have "k \<le> i - 1" using ki by simp
    from find_down_found [OF this k] obtain k' where
      k': "find_down 123 t (i - 1) = int k'" "k \<le> k'" "k' \<le> i - 1" "k' < length t" "t ! k' = 123"
      by blast
    have "k' < i" using k'(3) ki by simp
    from less.IH [OF this k'(2,4,5)] show ?thesis
      using nacc ki less.prems(2) k'(1)
      by (simp add: extract_loop_unfold [of t i] lastIndexOf_before)
  qed
qed

lemma lastIndexOf_at_zero:
  "t \<noteq> [] \<Longrightarrow> t ! 0 = 123 \<Longrightarrow> lastIndexOf 123 t (Some (- 1)) = 0"
  by (simp add: lastIndexOf_def Let_def)

lemma extract_loop_stuck:
  assumes "t \<noteq> []" "t ! 0 = 123" "\<not> accepted (JSON_parse (trim t))"
  shows "extract_loop t 0 = None"
proof (rule ccontr)
  assume "extract_loop t 0 \<noteq> None"
  then obtain r where a: "extract_loop t 0 = Some r" by auto
  have "u = t \<longrightarrow> i = 0 \<longrightarrow> False" if b: "extract_loop u i = Some r" for u i
    by (rule extract_loop.raw_induct [OF _ b])
       (use assms in \<open>auto simp: accepted_def lastIndexOf_at_zero split: if_splits option.splits;
          blast\<close>)
  then show False using a by blast
qed

lemma lastIndexOf_end:
  "t \<noteq> [] \<Longrightarrow> lastIndexOf 123 t None = find_down 123 t (length t - 1)"
  by (simp add: lastIndexOf_def Let_def nat_diff_distrib')

lemma not_space_brace: "\<not> is_js_space 123"
  by (simp add: is_js_space_def)

lemma has_prop_object: "has_prop k v \<Longrightarrow> truthy v \<and> typeof_object v"
  by (cases v) auto

lemma extractReviewJson_trailing:
  assumes t: "trim output = prose @ json"
    and j: "json \<noteq> []" "hd json = 123"
    and p: "JSON_parse json = Some obj"
    and f: "has_prop (js ''findings'') obj"
  shows "extractReviewJson output = Some (Inr obj)"
proof -
  let ?t = "trim output"
  let ?k = "length prose"
  have ne: "?t \<noteq> []" using t j by simp
  have lastt: "\<not> is_js_space (last ?t)" using trim_ends(2) [OF ne] .
  have suffix_stable: "trim (drop i ?t) = drop i ?t" if "i < length ?t" "?t ! i = 123" for i
  proof (rule trim_stable)
    show "drop i ?t \<noteq> []" using that by simp
    show "\<not> is_js_space (hd (drop i ?t))" using that by (simp add: hd_drop_conv_nth not_space_brace)
    show "\<not> is_js_space (last (drop i ?t))" using that lastt by simp
  qed
  have klen: "?k < length ?t" using t j by simp
  have kbrace: "?t ! ?k = 123" using t j by (simp add: nth_append hd_conv_nth)
  have dk: "drop ?k ?t = json" using t by simp
  have acc: "accepted (JSON_parse (trim (drop ?k ?t)))"
    using suffix_stable [OF klen kbrace] dk p f has_prop_object [OF f] by (simp add: accepted_def)
  have val: "the (JSON_parse (trim (drop ?k ?t))) = obj"
    using suffix_stable [OF klen kbrace] dk p by simp
  have rej: "\<not> accepted (JSON_parse (trim (drop i ?t)))"
    if "?k < i" "i < length ?t" "?t ! i = 123" for i
  proof -
    let ?n = "i - ?k"
    have d: "drop i ?t = drop ?n json" using t that by simp
    have n: "0 < ?n" "?n < length json" using t that by auto
    have 1: "JSON_parse (take ?n json @ drop ?n json) = Some obj" using p by simp
    have 2: "take ?n json \<noteq> []" using n j by simp
    have 3: "hd (take ?n json) = 123" using n j by simp
    have 4: "drop ?n json \<noteq> []" using n by simp
    have "hd (drop i ?t) = ?t ! i" using that(2) by (rule hd_drop_conv_nth)
    then have 5: "hd (drop ?n json) = 123" using d that(3) by simp
    from inner_brace_rejected [OF 1 2 3 4 5] show ?thesis
      using suffix_stable [OF that(2,3)] d by (simp add: accepted_def)
  qed
  have "?k \<le> length ?t - 1" using klen by simp
  from find_down_found [OF this klen kbrace] obtain i0 where
    i0: "find_down 123 ?t (length ?t - 1) = int i0" "?k \<le> i0" "i0 < length ?t" "?t ! i0 = 123"
    by blast
  have "extract_loop ?t (int i0) = Some (Inr (the (JSON_parse (trim (drop ?k ?t)))))"
    by (rule extract_loop_scan [OF acc _ klen kbrace i0(2,3,4)]) (rule rej; assumption)
  then have "extract_loop ?t (lastIndexOf 123 ?t None) = Some (Inr obj)"
    unfolding val lastIndexOf_end [OF ne] i0(1) .
  then show ?thesis
    unfolding extractReviewJson_def Let_def using ne by simp
qed

lemma extractReviewJson_rightmost:
  assumes k: "k < length (trim output)" "trim output ! k = 123"
    and acc: "accepted (JSON_parse (trim (drop k (trim output))))"
    and rej: "\<forall>j. k < j \<and> j < length (trim output) \<and> trim output ! j = 123 \<longrightarrow>
        \<not> accepted (JSON_parse (trim (drop j (trim output))))"
  shows "extractReviewJson output = Some (Inr (the (JSON_parse (trim (drop k (trim output))))))"
proof -
  let ?t = "trim output"
  have ne: "?t \<noteq> []" using k by auto
  have "k \<le> length ?t - 1" using k by simp
  from find_down_found [OF this k] obtain i0 where
    i0: "find_down 123 ?t (length ?t - 1) = int i0" "k \<le> i0" "i0 < length ?t" "?t ! i0 = 123"
    by blast
  have "extract_loop ?t (int i0) = Some (Inr (the (JSON_parse (trim (drop k ?t)))))"
    by (rule extract_loop_scan [OF acc _ k i0(2,3,4)]) (use rej in blast)
  then have "extract_loop ?t (lastIndexOf 123 ?t None)
      = Some (Inr (the (JSON_parse (trim (drop k ?t)))))"
    unfolding lastIndexOf_end [OF ne] i0(1) .
  then show ?thesis
    unfolding extractReviewJson_def Let_def using ne by simp
qed

text \<open>
  Claim C2. When the trimmed output ends in a JSON text that starts with \<open>{\<close> and parses
  to an object with a \<open>findings\<close> key, \<open>extractReviewJson\<close> returns that object, whatever
  comes before it, unmatched \<open>{\<close> included. The scan runs over the \<open>{\<close> of the trimmed
  output from the right: when the suffix at some \<open>{\<close> parses to an object with a
  \<open>findings\<close> key and no suffix at a \<open>{\<close> further right does, the result is the value
  parsed there.
\<close>

theorem extractReviewJson_trailing_object:
  "(trim output = prose @ json \<and> json \<noteq> [] \<and> hd json = 123 \<and>
      JSON_parse json = Some obj \<and> has_prop (js ''findings'') obj \<longrightarrow>
      extractReviewJson output = Some (Inr obj)) \<and>
   (k < length (trim output) \<and> trim output ! k = 123 \<and>
      accepted (JSON_parse (trim (drop k (trim output)))) \<and>
      (\<forall>j. k < j \<and> j < length (trim output) \<and> trim output ! j = 123 \<longrightarrow>
         \<not> accepted (JSON_parse (trim (drop j (trim output))))) \<longrightarrow>
      extractReviewJson output = Some (Inr (the (JSON_parse (trim (drop k (trim output)))))))"
  using extractReviewJson_trailing [of "output" prose json obj]
    extractReviewJson_rightmost [of k "output"]
  by blast

theorem extractReviewJson_trailing_object_witness:
  \<open>extractReviewJson (js '' see { and {"findings":[1], "note":"}{"} '')
     = Some (Inr (JObj [(js ''findings'', JArr [JNum 1]), (js ''note'', JStr (js ''}{''))]))\<close>
proof -
  have 1: \<open>trim (js '' see { and {"findings":[1], "note":"}{"} '')
     = js ''see { and '' @ js ''{"findings":[1], "note":"}{"}''\<close>
    by (simp add: trim_def js_def is_js_space_def)
  have 2: \<open>js ''{"findings":[1], "note":"}{"}'' \<noteq> []\<close>
    by (simp add: js_def)
  have 3: \<open>hd (js ''{"findings":[1], "note":"}{"}'') = 123\<close>
    by (simp add: js_def)
  have 4: \<open>JSON_parse (js ''{"findings":[1], "note":"}{"}'')
     = Some (JObj [(js ''findings'', JArr [JNum 1]), (js ''note'', JStr (js ''}{''))])\<close>
    by (simp add: JSON_parse_def js_def is_json_space_def value_step_def num_step_def is_digit_def
        number_of_lexeme_def digits_value_def)
  have 5: \<open>has_prop (js ''findings'')
     (JObj [(js ''findings'', JArr [JNum 1]), (js ''note'', JStr (js ''}{''))])\<close>
    by simp
  from extractReviewJson_trailing_object
      [of \<open>js '' see { and {"findings":[1], "note":"}{"} ''\<close> \<open>js ''see { and ''\<close>
        \<open>js ''{"findings":[1], "note":"}{"}''\<close>
        \<open>JObj [(js ''findings'', JArr [JNum 1]), (js ''note'', JStr (js ''}{''))]\<close>]
  show ?thesis using 1 2 3 4 5 by blast
qed


lemma extract_loop_end: "extract_loop t (- 1) = Some (Inl ParseFailure)"
  by (subst extract_loop.simps) simp

lemma extract_loop_no_accept:
  assumes "\<And>j. j < length t \<Longrightarrow> t ! j = 123 \<Longrightarrow> \<not> accepted (JSON_parse (trim (drop j t)))"
  shows "i < length t \<Longrightarrow> t ! i = 123 \<Longrightarrow>
     extract_loop t (int i) = (if t ! 0 = 123 then None else Some (Inl ParseFailure))"
proof (induction i rule: less_induct)
  case (less i)
  have nacc: "\<not> accepted (JSON_parse (trim (drop i t)))" using assms less.prems by blast
  show ?case
  proof (cases "i = 0")
    case True
    then have "extract_loop t 0 = None"
      using extract_loop_stuck [of t] less.prems nacc by auto
    then show ?thesis using True less.prems by simp
  next
    case False
    then have e: "extract_loop t (int i) = extract_loop t (find_down 123 t (i - 1))"
      using nacc less.prems by (simp add: extract_loop_unfold [of t i] lastIndexOf_before)
    from find_down_cases [of 123 t "i - 1"] show ?thesis
    proof
      assume "find_down 123 t (i - 1) = - 1 \<and> (\<forall>j\<le>i - 1. j < length t \<longrightarrow> t ! j \<noteq> 123)"
      then have "find_down 123 t (i - 1) = - 1" and "t ! 0 \<noteq> 123" using less.prems by auto
      then show ?thesis using e by (simp add: extract_loop_end)
    next
      assume "\<exists>k. find_down 123 t (i - 1) = int k \<and> k \<le> i - 1 \<and> k < length t \<and> t ! k = 123"
      then obtain k where k: "find_down 123 t (i - 1) = int k" "k \<le> i - 1" "k < length t" "t ! k = 123"
        by blast
      then have "k < i" using False by simp
      from less.IH [OF this k(3,4)] show ?thesis using e k(1) by simp
    qed
  qed
qed

lemma extractReviewJson_blank:
  "list_all is_js_space output \<Longrightarrow> extractReviewJson output = Some (Inl EmptyOutput)"
  by (simp add: extractReviewJson_def trim_empty_iff)

lemma extractReviewJson_no_candidate:
  assumes ne: "trim output \<noteq> []"
    and "\<And>j. j < length (trim output) \<Longrightarrow> trim output ! j = 123 \<Longrightarrow>
       \<not> accepted (JSON_parse (trim (drop j (trim output))))"
  shows "extractReviewJson output =
     (if hd (trim output) = 123 then None else Some (Inl ParseFailure))"
proof -
  let ?t = "trim output"
  have hd0: "hd ?t = ?t ! 0" using ne by (simp add: hd_conv_nth)
  have e: "extractReviewJson output = extract_loop ?t (find_down 123 ?t (length ?t - 1))"
    using ne by (simp add: extractReviewJson_def Let_def lastIndexOf_end)
  from find_down_cases [of 123 ?t "length ?t - 1"] show ?thesis
  proof
    assume "find_down 123 ?t (length ?t - 1) = - 1 \<and>
       (\<forall>j\<le>length ?t - 1. j < length ?t \<longrightarrow> ?t ! j \<noteq> 123)"
    then have "find_down 123 ?t (length ?t - 1) = - 1" and "?t ! 0 \<noteq> 123" using ne by auto
    then show ?thesis using e hd0 by (simp add: extract_loop_end)
  next
    assume "\<exists>k. find_down 123 ?t (length ?t - 1) = int k \<and> k \<le> length ?t - 1 \<and>
       k < length ?t \<and> ?t ! k = 123"
    then obtain k where k: "find_down 123 ?t (length ?t - 1) = int k" "k < length ?t" "?t ! k = 123"
      by blast
    from extract_loop_no_accept [OF assms(2) k(2,3)] show ?thesis using e k(1) hd0 by simp
  qed
qed

text \<open>
  Claim C5 at the output \<open>{}\<close>. No suffix of it that begins at a \<open>{\<close> parses to an object
  with a \<open>findings\<close> key: the only one is \<open>{}\<close> itself, the empty object. The claim asks
  for ParseFailure. The loop finds the \<open>{\<close> at index 0, rejects it, and searches again
  from position \<open>-1\<close>, which \<open>lastIndexOf\<close> takes as position 0: it finds index 0 again,
  and so for ever. \<open>extractReviewJson\<close> never returns.
\<close>

theorem extractReviewJson_hangs_on_empty_object:
  "JSON_parse (js ''{}'') = Some (JObj []) \<and>
   \<not> has_prop (js ''findings'') (JObj []) \<and>
   extractReviewJson (js ''{}'') = None"
proof -
  have t: "trim (js ''{}'') = js ''{}''"
    by (simp add: trim_def js_def is_js_space_def)
  have p: "JSON_parse (js ''{}'') = Some (JObj [])"
    by (simp add: JSON_parse_def js_def is_json_space_def value_step_def)
  have "extract_loop (js ''{}'') 0 = None"
    by (rule extract_loop_stuck) (simp_all add: t p accepted_def, simp_all add: js_def)
  moreover have "lastIndexOf 123 (js ''{}'') None = 0"
    by (simp add: lastIndexOf_def js_def)
  moreover have "js ''{}'' \<noteq> []" by (simp add: js_def)
  ultimately show ?thesis using p t by (simp add: extractReviewJson_def Let_def)
qed


section \<open>Properties of waitForSessionIdle\<close>










text \<open>
  Under the names that the source writes out, the full property read is the read of an
  own property of a plain object: none of them is inherited, an index or \<open>length\<close>.
\<close>

lemma literal_names_plain:
  "list_all (\<lambda>k. k \<noteq> js ''length'' \<and> array_index k = None \<and>
     k \<notin> set (object_prototype_names @ array_prototype_names @ string_prototype_names @
        number_prototype_names @ boolean_prototype_names)) literal_names"
  by (simp add: literal_names_def js_def array_index_def is_digit_def object_prototype_names_def
      array_prototype_names_def string_prototype_names_def number_prototype_names_def
      boolean_prototype_names_def)

lemma get_prop_member:
  assumes "k \<in> set literal_names"
  shows "optional_member v k = Value (get_prop v k)"
proof -
  have "k \<noteq> js ''length'' \<and> array_index k = None \<and>
     k \<notin> set (object_prototype_names @ array_prototype_names @ string_prototype_names @
        number_prototype_names @ boolean_prototype_names)"
    using literal_names_plain assms unfolding list_all_iff by blast
  then show ?thesis
    by (cases v) (auto simp: inherited_def split: option.splits)
qed







section \<open>Properties of runReviewCommand\<close>

text \<open>
  \<open>disposeInstance\<close> always returns or throws. A failure of the dispose call is logged
  and goes no further; what \<open>server.close()\<close> throws, outside the \<open>try\<close>, is thrown on.
\<close>

lemma disposeInstance_outcome:
  assumes "h_call h client (InstanceDispose rootDir) (world s) = (cr, w)"
    and "h_close h server w = (thrown, w')"
  shows "disposeInstance h client server rootDir s =
     Some ((case thrown of None \<Rightarrow> Inr () | Some e \<Rightarrow> Inl (Thrown e)),
       \<lparr>world = w',
        trace = trace s @ Call client (InstanceDispose rootDir) #
          (case await_unwrap cr (js ''instance.dispose'') of
             Inl e \<Rightarrow> [Logged (DisposeFailed e)]
           | Inr v \<Rightarrow> []) @ [Closed server]\<rparr>)"
  using assms
  by (cases "await_unwrap cr (js ''instance.dispose'')")
     (simp_all add: disposeInstance_def bindP_def catchP_def call_unwrap_def returnP_def
        logStep_def server_close_def emit_def)

text \<open>
  The executions of \<open>runReviewCommand\<close>. Without an instance there is nothing to dispose.
  A \<open>try\<close> block that never ends never reaches the \<open>finally\<close>. When the \<open>try\<close> block
  ends, with a parsed review result or with any error, \<open>instance.dispose\<close> is called on
  the instance's client and \<open>close\<close> on its server; the outcome is the one of the \<open>try\<close>
  block when \<open>close\<close> returns, and what \<open>close\<close> throws when it throws.
\<close>

lemma runReviewCommand_create_fails:
  "createOpencode h DEFAULT_MODEL s = Some (Inl e, s1) \<Longrightarrow>
     runReviewCommand h rootDir s = Some (Inl e, s1)"
  by (simp add: runReviewCommand_def bindP_def)

lemma runReviewCommand_never_returns:
  "createOpencode h DEFAULT_MODEL s = Some (Inr (client, server), s1) \<Longrightarrow>
   review_try h rootDir client (review_command_name h) (review_command_arguments h)
        (review_timeout h) s1 = None \<Longrightarrow>
     runReviewCommand h rootDir s = None"
  by (simp add: runReviewCommand_def bindP_def finallyP_def)

lemma runReviewCommand_finally:
  assumes cr: "createOpencode h DEFAULT_MODEL s = Some (Inr (client, server), s1)"
    and body: "review_try h rootDir client (review_command_name h) (review_command_arguments h)
        (review_timeout h) s1 = Some (r, s2)"
    and dc: "h_call h client (InstanceDispose rootDir) (world s2) = (d, w)"
    and cl: "h_close h server w = (thrown, w')"
  shows "runReviewCommand h rootDir s =
     Some ((case thrown of None \<Rightarrow> r | Some e \<Rightarrow> Inl (Thrown e)),
       \<lparr>world = w',
        trace = trace s2 @ Call client (InstanceDispose rootDir) #
          (case await_unwrap d (js ''instance.dispose'') of
             Inl e \<Rightarrow> [Logged (DisposeFailed e)]
           | Inr v \<Rightarrow> []) @ [Closed server]\<rparr>)"
  using cr body disposeInstance_outcome [OF dc cl]
  by (cases thrown) (simp_all add: runReviewCommand_def bindP_def finallyP_def)
section \<open>Properties of runReviewLoop\<close>

lemma cnt_append [simp]: "cnt q (a @ b) = cnt q a + cnt q b"
  by (simp add: cnt_def)

lemma cnt_Nil [simp]: "cnt q [] = 0"
  by (simp add: cnt_def)

lemma cnt_Cons [simp]: "cnt q (e # b) = (if q e then 1 else 0) + cnt q b"
  by (simp add: cnt_def)

lemma trace_emit [simp]: "trace (emit ev s) = trace s @ [ev]"
  by (simp add: emit_def)































text \<open>
  The scenario of the spec on the fake provider: findings on the iterations 1 and 2, none
  on the iteration 3; and findings on each of the 20 iterations of the default bound.
\<close>

lemma fake_wait_idle:
  assumes "0 < session_timeout fake_host ov" "sid \<noteq> js ''data''"
  shows "waitForSessionIdle fake_host client sid rootDir ov
     (fake_state c (Sync (JObj [(sid, JObj [(js ''type'', JStr (js ''idle''))])]) # rest) n tr)
   = Some (Inr (), fake_state c rest n (tr @ [Call client (SessionStatus rootDir)]))"
  unfolding waitForSessionIdle_def
  apply (simp add: date_now_def fake_host_def fake_state_def)
  apply (subst wait_loop.simps)
  using assms
  apply (simp add: date_now_def fake_host_def call_unwrap_def emit_def unwrap_def js_def)
  done

lemma review_timeout_fake: "review_timeout fake_host = 3600000"
  by (simp add: review_timeout_def env_number_def fake_host_def parseNumber_def
      DEFAULT_REVIEW_TIMEOUT_MS_def)

lemma session_timeout_fake: "0 < session_timeout fake_host ov \<longleftrightarrow> (\<forall>t. ov = Some t \<longrightarrow> 0 < t)"
  by (cases ov) (simp_all add: session_timeout_def env_number_def fake_host_def parseNumber_def
      DEFAULT_SESSION_TIMEOUT_MS_def)

lemma fake_call:
  "call_unwrap fake_host client req label (fake_state c (Sync v # rest) n tr)
     = Some (unwrap v label, fake_state c rest n (tr @ [Call client req]))"
  by (simp add: call_unwrap_def fake_host_def fake_state_def emit_def)
















section \<open>runReviewCommand on an output that extractReviewJson never finishes\<close>

lemma extract_empty_object: "extractReviewJson (js ''{}'') = None"
proof -
  have t: "trim (js ''{}'') = js ''{}''"
    by (simp add: trim_def js_def is_js_space_def)
  have p: "JSON_parse (js ''{}'') = Some (JObj [])"
    by (simp add: JSON_parse_def js_def is_json_space_def value_step_def)
  have "extract_loop (js ''{}'') 0 = None"
    by (rule extract_loop_stuck) (simp_all add: t p accepted_def, simp_all add: js_def)
  moreover have "lastIndexOf 123 (js ''{}'') None = 0"
    by (simp add: lastIndexOf_def js_def)
  moreover have "js ''{}'' \<noteq> []" by (simp add: js_def)
  ultimately show ?thesis using t by (simp add: extractReviewJson_def Let_def)
qed

text \<open>
  The \<open>try\<close> block on the fake provider, for a review session that answers the command
  with the text \<open>out\<close>: three calls, then \<open>extractReviewJson\<close> on \<open>out\<close>.
\<close>

lemma fake_review_try:
  assumes "trim out \<noteq> []"
  shows "review_try fake_host rootDir client (review_command_name fake_host)
      (review_command_arguments fake_host) (review_timeout fake_host)
      (fake_state c (review_replies out @ rest) n tr)
   = map_option
       (\<lambda>r. (r, fake_state c (Sync JUndefined # rest) n
          (tr @ [Call client (SessionCreate rootDir (js ''Review'')),
                 Call client (SessionCommand (js ''r'') rootDir DEFAULT_REVIEW_COMMAND_NAME []
                   DEFAULT_AGENT DEFAULT_MODEL),
                 Call client (SessionStatus rootDir)])))
       (extractReviewJson out)"
proof -
  have sid: "extractSessionID (JObj [(js ''id'', JStr (js ''r''))]) ctx = Inr (js ''r'')" for ctx
    by (simp add: extractSessionID_def is_string_def string_of_def js_def trim_def is_js_space_def)
  have cn: "review_command_name fake_host = DEFAULT_REVIEW_COMMAND_NAME"
    "review_command_arguments fake_host = []"
    by (simp_all add: review_command_name_def review_command_arguments_def env_or_def fake_host_def
        DEFAULT_REVIEW_COMMAND_ARGUMENTS_def)
  have out: "collectCommandOutput (JArr [JObj [(js ''type'', JStr (js ''text'')), (js ''text'', JStr out)]]) = out"
    by (simp add: collectCommandOutput_def List.map_filter_def part_chunk_def is_string_def
        string_of_def js_def)
  have un: "unwrap (JObj [(js ''id'', JStr (js ''r''))]) l = Inr (JObj [(js ''id'', JStr (js ''r''))])"
    "unwrap (JObj [(js ''parts'', p)]) l = Inr (JObj [(js ''parts'', p)])" for l p
    by (simp_all add: unwrap_def js_def)
  have rd: "js ''r'' \<noteq> js ''data''" by (simp add: js_def)
  have gp: "get_prop (JObj [(js ''parts'', p)]) (js ''parts'') = p"
    "get_prop (get_prop (JObj [(js ''parts'', p)]) (js ''info'')) (js ''id'') = JUndefined" for p
    by (simp_all add: js_def)
  show ?thesis
    unfolding review_try_def cn review_timeout_fake review_replies_def
    using assms
    by (simp add: bindP_def liftE_def returnP_def throwP_def fake_call un sid
        fake_wait_idle session_timeout_fake gp rd nullish_or_def out Let_def)
qed

text \<open>
  Claim C9 at a review whose output is \<open>{}\<close>. The instance is created, the session
  answers and goes idle, and the \<open>try\<close> block reaches \<open>extractReviewJson("{}")\<close>, which
  never returns. So the \<open>try\<close> block never ends, the \<open>finally\<close> block is never entered,
  and \<open>runReviewCommand\<close> neither returns nor throws: the instance it created is never
  disposed and its server never closed. The claim asks for the instance to be disposed in
  every execution.
\<close>

theorem runReviewCommand_hang_never_disposes:
  "createOpencode fake_host DEFAULT_MODEL (fake_start (review_replies (js ''{}'')))
     = Some (Inr (1, 1), fake_state 0 (review_replies (js ''{}'')) 1 [Created DEFAULT_MODEL]) \<and>
   review_try fake_host (js ''/repo'') 1 (review_command_name fake_host)
       (review_command_arguments fake_host) (review_timeout fake_host)
       (fake_state 0 (review_replies (js ''{}'')) 1 [Created DEFAULT_MODEL]) = None \<and>
   runReviewCommand fake_host (js ''/repo'') (fake_start (review_replies (js ''{}''))) = None"
proof -
  let ?s = "fake_start (review_replies (js ''{}''))"
  let ?s1 = "fake_state 0 (review_replies (js ''{}'')) 1 [Created DEFAULT_MODEL]"
  have 1: "createOpencode fake_host DEFAULT_MODEL ?s = Some (Inr (1, 1), ?s1)"
    by (simp add: createOpencode_def fake_host_def fake_start_def fake_state_def emit_def)
  have t: "trim (js ''{}'') \<noteq> []"
    by (simp add: trim_def js_def is_js_space_def)
  have 2: "review_try fake_host (js ''/repo'') 1 (review_command_name fake_host)
       (review_command_arguments fake_host) (review_timeout fake_host) ?s1 = None"
    using fake_review_try [OF t, of "js ''/repo''" 1 0 "[]" 1 "[Created DEFAULT_MODEL]"]
    by (simp add: extract_empty_object)
  have 3: "runReviewCommand fake_host (js ''/repo'') ?s = None"
    using 1 2 by (simp add: runReviewCommand_def bindP_def finallyP_def)
  show ?thesis using 1 2 3 by blast
qed

end
